theory Spec2Isabelle
  imports Main "HOL-Library.Word"
begin

unbundle bit_operations_syntax

section \<open>Python string primitives used by gen_vvm.py\<close>

datatype py_error = IndexError | KeyError

text \<open>Sequencing of computations that may raise: the first exception wins.\<close>

definition bind_err :: "py_error + 'a \<Rightarrow> ('a \<Rightarrow> py_error + 'b) \<Rightarrow> py_error + 'b" where
  "bind_err m f = (case m of Inl e \<Rightarrow> Inl e | Inr x \<Rightarrow> f x)"

text \<open>
  \<^verbatim>\<open>s.split(sep)\<close> for a non-empty separator: the text is scanned from the left, every
  non-overlapping occurrence of \<open>sep\<close> closes a piece, and the result always has at
  least one piece. (The source only splits on the literals \<^verbatim>\<open>'->'\<close> and \<^verbatim>\<open>','\<close>.)
\<close>

function split_from :: "string \<Rightarrow> string \<Rightarrow> string \<Rightarrow> string list" where
  "split_from sep acc s =
     (if s = [] then [acc]
      else if sep \<noteq> [] \<and> take (length sep) s = sep
           then acc # split_from sep [] (drop (length sep) s)
      else split_from sep (acc @ [hd s]) (tl s))"
  by pat_completeness auto
termination
  by (relation "measure (\<lambda>(sep, acc, s). length s)") auto

definition py_split :: "string \<Rightarrow> string \<Rightarrow> string list" where
  "py_split sep s = split_from sep [] s"

text \<open>
  \<^verbatim>\<open>pattern % args\<close> restricted to \<^verbatim>\<open>%s\<close> conversions, which is all that the table
  builder uses; every call site supplies exactly as many arguments as the pattern has
  conversions. A \<^verbatim>\<open>%\<close> followed by another character is copied (the patterns have none).
\<close>

fun py_format :: "string \<Rightarrow> string list \<Rightarrow> string" where
  "py_format [] args = []"
| "py_format [c] args = [c]"
| "py_format (c # d # cs) args =
     (if c = CHR ''%'' \<and> d = CHR ''s''
      then (case args of [] \<Rightarrow> c # d # py_format cs []
                       | a # as \<Rightarrow> a @ py_format cs as)
      else c # py_format (d # cs) args)"

section \<open>The type registry\<close>

text \<open>Each row is (Empirical name, VVM tag, C++ storage name).\<close>

definition types :: "(string \<times> string \<times> string) list" where
  "types =
    [(''Int64'',     ''i64'', ''int64_t''),
     (''Float64'',   ''f64'', ''double''),
     (''Bool'',      ''b8'',  ''bool''),
     (''String'',    ''S'',   ''std::string''),
     (''Char'',      ''c8'',  ''char''),
     (''Timestamp'', ''T'',   ''Timestamp''),
     (''Timedelta'', ''D'',   ''Timedelta''),
     (''Time'',      ''TI'',  ''Time''),
     (''Date'',      ''DA'',  ''Date'')]"

definition integer_types :: "string list" where "integer_types = [''Int64'']"
definition float_types :: "string list" where "float_types = [''Float64'']"
definition bool_types :: "string list" where "bool_types = [''Bool'']"
definition string_types :: "string list" where "string_types = [''String'']"
definition char_types :: "string list" where "char_types = [''Char'']"
definition timestamp_types :: "string list" where "timestamp_types = [''Timestamp'']"
definition timedelta_types :: "string list" where "timedelta_types = [''Timedelta'']"
definition time_types :: "string list" where "time_types = [''Time'']"
definition date_types :: "string list" where "date_types = [''Date'']"

definition arithmetic_types :: "string list" where
  "arithmetic_types = integer_types @ float_types"

definition time_ish_types :: "string list" where
  "time_ish_types = timestamp_types @ time_types @ date_types"

definition all_types :: "string list" where
  "all_types = arithmetic_types @ bool_types @ string_types @ char_types @
               time_ish_types @ timedelta_types"

section \<open>The opcode table\<close>

text \<open>
  A row is the source's 4-tuple: Empirical (surface) name, VVM (canonical) name,
  Empirical type signature, number of operand words.
\<close>

type_synonym opcode = "string \<times> string \<times> string \<times> nat"

definition emp_name :: "opcode \<Rightarrow> string" where "emp_name o' = fst o'"
definition vvm_name :: "opcode \<Rightarrow> string" where "vvm_name o' = fst (snd o')"
definition type_sig :: "opcode \<Rightarrow> string" where "type_sig o' = fst (snd (snd o'))"
definition arity :: "opcode \<Rightarrow> nat" where "arity o' = snd (snd (snd o'))"

definition binary_patterns :: "string list" where
  "binary_patterns = [''(%s,%s)->%s'', ''(%s,[%s])->[%s]'',
                      ''([%s],%s)->[%s]'', ''([%s],[%s])->[%s]'']"

definition unary_patterns :: "string list" where
  "unary_patterns = [''%s->%s'', ''[%s]->[%s]'']"

definition literal_opcodes :: "opcode list" where
  "literal_opcodes =
    [('''', ''halt'', '''', 0),
     ('''', ''alloc'', '''', 2),
     ('''', ''write'', '''', 1),
     ('''', ''save'', '''', 1),
     ('''', ''member'', '''', 3),
     ('''', ''assign'', '''', 3),
     ('''', ''append'', '''', 3),
     ('''', ''repr'', '''', 3),
     ('''', ''load'', '''', 3),
     ('''', ''store'', '''', 4),
     ('''', ''where'', '''', 4),
     ('''', ''br'', '''', 1),
     ('''', ''btrue'', '''', 2),
     ('''', ''bfalse'', '''', 2),
     ('''', ''ret'', '''', 1),
     ('''', ''call'', '''', 2),
     ('''', ''isort'', '''', 3),
     ('''', ''multidx'', '''', 4),
     ('''', ''group'', '''', 8),
     ('''', ''eqmatch'', '''', 5),
     ('''', ''asofmatch'', '''', 7),
     ('''', ''asofnear'', '''', 7),
     ('''', ''asofwithin'', '''', 8),
     ('''', ''eqasofmatch'', '''', 10),
     ('''', ''eqasofnear'', '''', 10),
     ('''', ''eqasofwithin'', '''', 11),
     ('''', ''take'', '''', 4),
     ('''', ''concat'', '''', 4)]"

definition cast_pairs :: "(string list \<times> string list) list" where
  "cast_pairs =
    [(string_types, all_types),
     (integer_types, all_types),
     (float_types, float_types @ integer_types @ string_types),
     (char_types, char_types @ integer_types),
     (bool_types, bool_types),
     (timestamp_types, time_ish_types @ integer_types @ string_types),
     (timedelta_types, timedelta_types @ integer_types @ string_types),
     (time_types, timestamp_types @ time_types @ integer_types @ string_types),
     (date_types, timestamp_types @ date_types @ integer_types @ string_types)]"

definition cast_opcodes :: "opcode list" where
  "cast_opcodes =
    [(tgt, ''cast'', py_format p [src, tgt], 2).
       (tgts, srcs) \<leftarrow> cast_pairs, tgt \<leftarrow> tgts, src \<leftarrow> srcs,
       p \<leftarrow> [''%s->%s'', ''[%s]->[%s]'']]"

definition print_opcodes :: "opcode list" where
  "print_opcodes =
    [(''print'', ''print'', py_format p [t], 2).
       p \<leftarrow> [''%s->()'', ''[%s]->()''], t \<leftarrow> all_types]"

text \<open>
  The loops over \<^verbatim>\<open>operators\<close> bind \<^verbatim>\<open>k, v\<close> and append \<^verbatim>\<open>(v, k, ...)\<close>: the first
  component of each operator pair is the VVM name, the second the Empirical name.
\<close>

definition same_type_binary :: "(string \<times> string) list \<Rightarrow> string list \<Rightarrow> opcode list" where
  "same_type_binary operators ts =
    [(v, k, py_format p [t, t, t], 3).
       (k, v) \<leftarrow> operators, p \<leftarrow> binary_patterns, t \<leftarrow> ts]"

definition same_type_unary :: "(string \<times> string) list \<Rightarrow> string list \<Rightarrow> opcode list" where
  "same_type_unary operators ts =
    [(v, k, py_format p [t, t], 2).
       (k, v) \<leftarrow> operators, p \<leftarrow> unary_patterns, t \<leftarrow> ts]"

definition reduce_opcodes :: "(string \<times> string) list \<Rightarrow> string list \<Rightarrow> opcode list" where
  "reduce_opcodes operators ts =
    [(v, k, py_format ''[%s]->%s'' [t, t], 2). (k, v) \<leftarrow> operators, t \<leftarrow> ts]"

definition comparison_opcodes :: "opcode list" where
  "comparison_opcodes =
    [(v, k, py_format p [t, t], 3).
       (k, v) \<leftarrow> [(''lt'', ''<''), (''gt'', ''>''), (''eq'', ''==''), (''ne'', ''!=''),
                  (''lte'', ''<=''), (''gte'', ''>='')],
       p \<leftarrow> [''(%s,%s)->Bool'', ''(%s,[%s])->[Bool]'',
             ''([%s],%s)->[Bool]'', ''([%s],[%s])->[Bool]''],
       t \<leftarrow> all_types]"

definition time_arith_opcodes :: "opcode list" where
  "time_arith_opcodes =
    [(v, k, py_format p [t, t], 3).
       (k, v) \<leftarrow> [(''sub'', ''-'')],
       p \<leftarrow> [''(%s,%s)->Timedelta'', ''(%s,[%s])->[Timedelta]'',
             ''([%s],%s)->[Timedelta]'', ''([%s],[%s])->[Timedelta]''],
       t \<leftarrow> time_ish_types] @
    [(v, k, py_format p [t1, t2, t1], 3).
       (k, v) \<leftarrow> [(''add'', ''+''), (''sub'', ''-''), (''mul'', ''*''), (''div'', ''/''),
                  (''bar'', ''bar'')],
       p \<leftarrow> binary_patterns,
       t1 \<leftarrow> time_ish_types @ timedelta_types, t2 \<leftarrow> timedelta_types] @
    [(v, k, py_format p [t1, t2, t2], 3).
       (k, v) \<leftarrow> [(''add'', ''+''), (''mul'', ''*'')],
       p \<leftarrow> binary_patterns,
       t1 \<leftarrow> timedelta_types, t2 \<leftarrow> time_ish_types] @
    [(v, k, py_format p [t1, t2], 3).
       (k, v) \<leftarrow> [(''add'', ''+'')],
       p \<leftarrow> [''(%s,%s)->Timestamp'', ''(%s,[%s])->[Timestamp]'',
             ''([%s],%s)->[Timestamp]'', ''([%s],[%s])->[Timestamp]''],
       t1 \<leftarrow> date_types, t2 \<leftarrow> time_types]"

definition unit_opcodes :: "opcode list" where
  "unit_opcodes =
    [(''suffix'' @ u, ''unit_'' @ u, ''Int64->Timedelta'', 2).
       u \<leftarrow> [''ns'', ''us'', ''ms'', ''s'', ''m'', ''h'', ''d'']]"

definition wrapper_opcodes :: "opcode list" where
  "wrapper_opcodes =
    [(v, k, py_format ''[%s]->Int64'' [t], 2).
       (k, v) \<leftarrow> [(''len'', ''len''), (''count'', ''count'')], t \<leftarrow> all_types] @
    [(v, k, py_format ''%s->[%s]'' [t, t], 2).
       (k, v) \<leftarrow> [(''range'', ''range'')], t \<leftarrow> integer_types]"

definition manual_opcodes :: "opcode list" where
  "manual_opcodes =
    [('''', k, py_format p [t], v).
       (k, v) \<leftarrow> [(''del'', 1)], p \<leftarrow> [''%s'', ''[%s]''], t \<leftarrow> all_types] @
    [('''', k, py_format ''([%s],Int64)->%s'' [t, t], v).
       (k, v) \<leftarrow> [(''idx'', 3)], t \<leftarrow> all_types]"

text \<open>\<^verbatim>\<open>_make_opcodes()\<close>: the families in the order in which the source appends them.\<close>

definition opcodes :: "opcode list" where
  "opcodes =
     literal_opcodes @
     [(''now'', ''now'', ''Timestamp'', 1)] @
     cast_opcodes @
     print_opcodes @
     same_type_binary [(''or'', ''or''), (''and'', ''and'')] bool_types @
     same_type_binary [(''bitand'', ''&''), (''bitor'', ''|''), (''lshift'', ''<<''),
                       (''rshift'', ''>>''), (''mod'', ''%'')] integer_types @
     same_type_binary [(''add'', ''+''), (''sub'', ''-''), (''mul'', ''*''), (''div'', ''/'')]
                      arithmetic_types @
     comparison_opcodes @
     same_type_unary [(''not'', ''not'')] bool_types @
     same_type_unary [(''neg'', ''-''), (''pos'', ''+'')] arithmetic_types @
     same_type_unary [(''sin'', ''sin''), (''cos'', ''cos''), (''tan'', ''tan''),
                      (''asin'', ''asin''), (''acos'', ''acos''), (''atan'', ''atan''),
                      (''sinh'', ''sinh''), (''cosh'', ''cosh''), (''tanh'', ''tanh''),
                      (''asinh'', ''asinh''), (''acosh'', ''acosh''), (''atanh'', ''atanh'')]
                     float_types @
     reduce_opcodes [(''sum'', ''sum''), (''prod'', ''prod'')] arithmetic_types @
     same_type_binary [(''add'', ''+'')] string_types @
     reduce_opcodes [(''sum'', ''sum'')] string_types @
     time_arith_opcodes @
     unit_opcodes @
     wrapper_opcodes @
     manual_opcodes"

section \<open>The opcode encoder\<close>

definition vvm_types_dict :: "string \<rightharpoonup> string" where
  "vvm_types_dict = map_of (rev (map (\<lambda>(e, v, c). (e, v)) types))"

definition cpp_types_dict :: "string \<rightharpoonup> string" where
  "cpp_types_dict = map_of (rev (map (\<lambda>(e, v, c). (e, c)) types))"

text \<open>
  \<^verbatim>\<open>get_vvm_type(t, append)\<close>: \<^verbatim>\<open>t[0]\<close> raises IndexError on the empty string, an
  unregistered name raises KeyError, and \<^verbatim>\<open>t[1:-1]\<close> drops the first and last character.
\<close>

function get_vvm_type :: "string \<Rightarrow> string \<Rightarrow> py_error + string" where
  "get_vvm_type t sfx =
     (if t = [] then Inl IndexError
      else if hd t = CHR ''['' \<and> last t = CHR '']''
           then get_vvm_type (butlast (tl t)) ''v''
      else (case vvm_types_dict t of
              None \<Rightarrow> Inl KeyError
            | Some tag \<Rightarrow> Inr (tag @ sfx)))"
  by pat_completeness auto
termination
  by (relation "measure (\<lambda>(t, sfx). length t)") (auto simp: neq_Nil_conv)

text \<open>The loop \<^verbatim>\<open>for p in ps: suffix += '_' + get_vvm_type(p)\<close>.\<close>

fun suffix_loop :: "string \<Rightarrow> string list \<Rightarrow> py_error + string" where
  "suffix_loop suffix [] = Inr suffix"
| "suffix_loop suffix (p # ps) =
     bind_err (get_vvm_type p ''s'') (\<lambda>v. suffix_loop (suffix @ ''_'' @ v) ps)"

definition get_opcode :: "string \<Rightarrow> string \<Rightarrow> py_error + string" where
  "get_opcode func_name tsig =
     (if length tsig = 0 then Inr func_name
      else let tys = py_split ''->'' tsig;
               params = hd tys
           in bind_err
                (if params = [] then Inl IndexError
                 else if hd params = CHR ''('' \<and> last params = CHR '')''
                      then suffix_loop [] (py_split '','' (butlast (tl params)))
                 else bind_err (get_vvm_type params ''s'') (\<lambda>v. Inr (''_'' @ v)))
                (\<lambda>suffix.
                   bind_err
                     (if func_name = ''cast''
                      then (if length tys < 2 then Inl IndexError
                            else bind_err (get_vvm_type (tys ! 1) ''s'')
                                   (\<lambda>v. Inr (suffix @ ''_'' @ v)))
                      else Inr suffix)
                     (\<lambda>suffix. Inr (func_name @ suffix))))"

definition opcode_id :: "opcode \<Rightarrow> py_error + string" where
  "opcode_id o' = get_opcode (vvm_name o') (type_sig o')"

section \<open>The source emitter: reflow_lines\<close>

definition TABSIZE :: int where "TABSIZE = 2"
definition MAX_COL :: int where "MAX_COL = 80"

text \<open>
  Python clips a slice bound \<open>k\<close> against a sequence of length \<open>n\<close>: a negative bound
  counts from the end, and the result is forced into \<open>0..n\<close>.
\<close>

definition py_norm :: "int \<Rightarrow> nat \<Rightarrow> nat" where
  "py_norm k n =
     (if k < 0 then (if int n + k < 0 then 0 else nat (int n + k))
      else if k > int n then n else nat k)"

definition py_slice_to :: "'a list \<Rightarrow> int \<Rightarrow> 'a list" where
  "py_slice_to s i = take (py_norm i (length s)) s"

definition py_slice_from :: "'a list \<Rightarrow> int \<Rightarrow> 'a list" where
  "py_slice_from s i = drop (py_norm i (length s)) s"

fun first_index :: "'a \<Rightarrow> 'a list \<Rightarrow> nat option" where
  "first_index c [] = None"
| "first_index c (x # xs) =
     (if x = c then Some 0 else map_option Suc (first_index c xs))"

fun last_index :: "'a \<Rightarrow> 'a list \<Rightarrow> nat option" where
  "last_index c [] = None"
| "last_index c (x # xs) =
     (case last_index c xs of
        Some k \<Rightarrow> Some (Suc k)
      | None \<Rightarrow> (if x = c then Some 0 else None))"

text \<open>
  \<^verbatim>\<open>s.find(c, start, end)\<close> and \<^verbatim>\<open>s.rfind(c, start, end)\<close> for a one-character
  needle: the lowest (highest) index in the clipped window, or \<open>-1\<close>.
\<close>

definition py_find :: "'a \<Rightarrow> 'a list \<Rightarrow> int \<Rightarrow> int \<Rightarrow> int" where
  "py_find c s start stop =
     (let a = py_norm start (length s); b = py_norm stop (length s)
      in case first_index c (take (b - a) (drop a s)) of
           None \<Rightarrow> - 1
         | Some k \<Rightarrow> int (a + k))"

definition py_rfind :: "'a \<Rightarrow> 'a list \<Rightarrow> int \<Rightarrow> int \<Rightarrow> int" where
  "py_rfind c s start stop =
     (let a = py_norm start (length s); b = py_norm stop (length s)
      in case last_index c (take (b - a) (drop a s)) of
           None \<Rightarrow> - 1
         | Some k \<Rightarrow> int (a + k))"

definition py_count :: "'a \<Rightarrow> 'a list \<Rightarrow> nat" where
  "py_count c s = length (filter (\<lambda>x. x = c) s)"

text \<open>
  The break position of one loop round: the last space before \<open>size\<close>, else the first
  space of \<open>cur\<close> (\<open>-1\<close> when there is none); if the text before it holds an odd number
  of double quotes (\<open>CHR 0x22\<close>), one before the last of those quotes.
\<close>

definition break_index :: "string \<Rightarrow> int \<Rightarrow> int" where
  "break_index cur sz =
     (let i = py_rfind CHR '' '' cur 0 sz;
          i = (if i = - 1 then py_find CHR '' '' cur 0 (int (length cur)) else i)
      in if py_count (CHR 0x22) (py_slice_to cur i) mod 2 = 1
         then py_rfind (CHR 0x22) cur 0 i - 1
         else i)"

text \<open>
  After the first line has been appended, the continuation indent: past the first
  \<^verbatim>\<open>{\<close> (and the space after it), else past the first \<^verbatim>\<open>(\<close>, else unchanged.
\<close>

definition first_line_indent :: "string \<Rightarrow> int \<Rightarrow> int \<Rightarrow> string \<Rightarrow> int \<times> string" where
  "first_line_indent cur i sz padding =
     (let j = py_find CHR ''{'' cur 0 i
      in if j \<ge> 0 then (sz - (j + 2), replicate (nat (j + 2)) CHR '' '')
         else (let j = py_find CHR ''('' cur 0 i
               in if j \<ge> 0 then (sz - (j + 1), replicate (nat (j + 1)) CHR '' '')
                  else (sz, padding)))"

text \<open>
  The \<^verbatim>\<open>while len(cur) > sz\<close> loop with its \<^verbatim>\<open>else\<close> branch. The loop has no
  bound in the source; the first argument is the number of rounds allowed, and \<open>None\<close>
  means that they did not suffice.
\<close>

fun reflow_loop :: "nat \<Rightarrow> string list \<Rightarrow> string \<Rightarrow> string \<Rightarrow> int \<Rightarrow> string list option" where
  "reflow_loop 0 lines cur padding sz = None"
| "reflow_loop (Suc fuel) lines cur padding sz =
     (if int (length cur) > sz
      then (let i = break_index cur sz;
                lines' = lines @ [padding @ py_slice_to cur i];
                (sz', padding') =
                   (if length lines' = 1 then first_line_indent cur i sz padding
                    else (sz, padding))
            in reflow_loop fuel lines' (py_slice_from cur (i + 1)) padding' sz')
      else Some (lines @ [padding @ cur]))"

definition reflow_lines :: "nat \<Rightarrow> string \<Rightarrow> int \<Rightarrow> string list option" where
  "reflow_lines fuel s depth =
     (let sz = MAX_COL - depth * TABSIZE
      in if int (length s) < sz then Some [s]
         else reflow_loop fuel [] s [] sz)"

text \<open>Predicates used to state what reflow_lines returns.\<close>

definition line_ok :: "int \<Rightarrow> string \<Rightarrow> bool" where
  "line_ok budget l \<longleftrightarrow>
     int (length l) \<le> budget \<or>
     (\<exists>pad w. l = pad @ w \<and> set pad \<subseteq> {CHR '' ''} \<and> CHR '' '' \<notin> set w)"

definition break_choice :: "string \<Rightarrow> int \<Rightarrow> int \<Rightarrow> bool" where
  "break_choice cur sz i \<longleftrightarrow>
     (if \<exists>k<length cur. int k < sz \<and> cur ! k = CHR '' ''
      then 0 \<le> i \<and> i < sz \<and> nat i < length cur \<and> cur ! nat i = CHR '' '' \<and>
           (\<forall>k<length cur. i < int k \<and> int k < sz \<longrightarrow> cur ! k \<noteq> CHR '' '')
      else if CHR '' '' \<in> set cur
      then 0 \<le> i \<and> nat i < length cur \<and> cur ! nat i = CHR '' '' \<and>
           CHR '' '' \<notin> set (take (nat i) cur)
      else i = - 1)"

section \<open>The trait assigner (BuiltinsWriter)\<close>

text \<open>The trait flags are bits of a Python integer.\<close>

definition none :: int where "none = 0"
definition pure :: int where "pure = 1"
definition transform :: int where "transform = 2"
definition linear :: int where "linear = 4"
definition autostream :: int where "autostream = 8"

definition all_traits :: int where "all_traits = pure OR transform OR linear"
definition io_traits :: int where "io_traits = transform OR linear"
definition ca_traits :: int where "ca_traits = pure OR linear"
definition ra_traits :: int where "ra_traits = pure OR transform"

text \<open>The dictionary \<^verbatim>\<open>d\<close> of overrides, in the order of the source.\<close>

definition trait_overrides :: "(string \<times> int) list" where
  "trait_overrides =
    [(''load'', autostream),
     (''store'', none),
     (''print'', none),
     (''unique'', ca_traits),
     (''idx'', ra_traits),
     (''multidx'', ra_traits),
     (''sort'', ra_traits),
     (''range'', all_traits OR autostream),
     (''now'', io_traits)]"

text \<open>
  \<^verbatim>\<open>traits = all_traits; if key in d: traits = d[key]\<close>. A later entry of a
  dictionary display overrides an earlier one with the same key.
\<close>

definition assign_traits :: "string \<Rightarrow> int" where
  "assign_traits key =
     (case map_of (rev trait_overrides) key of
        Some t \<Rightarrow> t
      | None \<Rightarrow> all_traits)"

text \<open>
  The loop of BuiltinsWriter: a row is emitted only when its Empirical name is not
  empty, and the dictionary is consulted with that name, \<^verbatim>\<open>o[0]\<close>.
\<close>

definition builtin_traits :: "(opcode \<times> int) list" where
  "builtin_traits =
     [(o', assign_traits (emp_name o')). o' \<leftarrow> opcodes, length (emp_name o') \<noteq> 0]"

text \<open>Reading a bitset as the set of the flags that it holds.\<close>

datatype trait = Pure | Transform | Linear | Autostream

fun flag :: "trait \<Rightarrow> int" where
  "flag Pure = pure"
| "flag Transform = transform"
| "flag Linear = linear"
| "flag Autostream = autostream"

definition traits_of :: "int \<Rightarrow> trait list" where
  "traits_of t = filter (\<lambda>f. t AND flag f \<noteq> 0) [Pure, Transform, Linear, Autostream]"

section \<open>The per-type dispatch of the as-of joins (AsofWriter)\<close>

text \<open>
  Each generated function is a \<^verbatim>\<open>switch (t)\<close> over the type tags. A case either
  returns the call of the implementation instantiated at a C++ type, or is
  \<^verbatim>\<open>throw err;\<close> with \<^verbatim>\<open>std::logic_error err("Invalid ... type")\<close>.
\<close>

datatype case_body = Forward string | ThrowErr

text \<open>The loop \<^verbatim>\<open>for t in types\<close> of \<^verbatim>\<open>asofmatch_arr\<close> and \<^verbatim>\<open>eqasofmatch_df\<close>.\<close>

definition asof_cases_all :: "(string \<times> case_body) list" where
  "asof_cases_all =
     concat (map (\<lambda>(e, v, c). [(v @ ''s'', Forward c), (v @ ''v'', Forward c)]) types)"

text \<open>
  The loop of \<^verbatim>\<open>asofnear_arr\<close>, \<^verbatim>\<open>asofwithin_arr\<close>, \<^verbatim>\<open>eqasofnear_df\<close> and
  \<^verbatim>\<open>eqasofwithin_df\<close>, with the test \<^verbatim>\<open>t[0] in arithmetic_types + time_ish_types\<close>.
\<close>

definition asof_cases_restricted :: "(string \<times> case_body) list" where
  "asof_cases_restricted =
     concat (map (\<lambda>(e, v, c).
        if e \<in> set (arithmetic_types @ time_ish_types)
        then [(v @ ''s'', Forward c), (v @ ''v'', Forward c)]
        else [(v @ ''s'', ThrowErr), (v @ ''v'', ThrowErr)]) types)"

text \<open>The generated functions, in the order in which AsofWriter emits them.\<close>

definition asof_writer :: "(string \<times> (string \<times> case_body) list) list" where
  "asof_writer =
    [(''asofmatch_arr'', asof_cases_all),
     (''asofnear_arr'', asof_cases_restricted),
     (''asofwithin_arr'', asof_cases_restricted),
     (''eqasofmatch_df'', asof_cases_all),
     (''eqasofnear_df'', asof_cases_restricted),
     (''eqasofwithin_df'', asof_cases_restricted)]"

section \<open>Auxiliary notions for the table\<close>

text \<open>
  The (VVM name, Empirical name) pairs of the operator lists from which the families
  of the table are built; for the casts the Empirical name is the target type.
\<close>

definition operator_names :: "(string \<times> string) list" where
  "operator_names =
     [(''print'', ''print''),
      (''or'', ''or''), (''and'', ''and''),
      (''bitand'', ''&''), (''bitor'', ''|''), (''lshift'', ''<<''),
      (''rshift'', ''>>''), (''mod'', ''%''),
      (''add'', ''+''), (''sub'', ''-''), (''mul'', ''*''), (''div'', ''/''),
      (''lt'', ''<''), (''gt'', ''>''), (''eq'', ''==''), (''ne'', ''!=''),
      (''lte'', ''<=''), (''gte'', ''>=''),
      (''not'', ''not''), (''neg'', ''-''), (''pos'', ''+''),
      (''sin'', ''sin''), (''cos'', ''cos''), (''tan'', ''tan''),
      (''asin'', ''asin''), (''acos'', ''acos''), (''atan'', ''atan''),
      (''sinh'', ''sinh''), (''cosh'', ''cosh''), (''tanh'', ''tanh''),
      (''asinh'', ''asinh''), (''acosh'', ''acosh''), (''atanh'', ''atanh''),
      (''sum'', ''sum''), (''prod'', ''prod''), (''bar'', ''bar''),
      (''unit_ns'', ''suffixns''), (''unit_us'', ''suffixus''), (''unit_ms'', ''suffixms''),
      (''unit_s'', ''suffixs''), (''unit_m'', ''suffixm''), (''unit_h'', ''suffixh''),
      (''unit_d'', ''suffixd''),
      (''len'', ''len''), (''count'', ''count''), (''range'', ''range''),
      (''del'', []), (''idx'', [])]"

definition name_table :: "(string \<times> string) list" where
  "name_table =
     map (\<lambda>o'. (vvm_name o', [])) literal_opcodes @
     [(''now'', ''now'')] @
     map (\<lambda>t. (''cast'', t)) all_types @
     operator_names"

section \<open>Signatures as structured values\<close>

text \<open>
  The signatures in the table are written with \<^verbatim>\<open>%\<close> patterns. To reason about all of
  them at once they are read back as structured values: a parameter is a scalar or an
  array of a named type, and a signature is a parameter list with no result (no arrow),
  the unit result \<^verbatim>\<open>()\<close>, or a result type.
\<close>

datatype vtype = Scalar string | Array string

datatype aret = NoRet | UnitRet | Ret vtype

fun type_name :: "vtype \<Rightarrow> string" where
  "type_name (Scalar t) = t"
| "type_name (Array t) = t"

fun render_type :: "vtype \<Rightarrow> string" where
  "render_type (Scalar t) = t"
| "render_type (Array t) = ''['' @ t @ '']''"

fun join :: "string \<Rightarrow> string list \<Rightarrow> string" where
  "join sep [] = []"
| "join sep [x] = x"
| "join sep (x # y # ys) = x @ sep @ join sep (y # ys)"

fun render_params :: "vtype list \<Rightarrow> string" where
  "render_params [] = []"
| "render_params [p] = render_type p"
| "render_params ps = ''('' @ join '','' (map render_type ps) @ '')''"

fun render_ret :: "aret \<Rightarrow> string" where
  "render_ret NoRet = []"
| "render_ret UnitRet = ''->()''"
| "render_ret (Ret v) = ''->'' @ render_type v"

definition render_sig :: "vtype list \<Rightarrow> aret \<Rightarrow> string" where
  "render_sig ps r = render_params ps @ render_ret r"

text \<open>A structured row, and the row of the table that it stands for.\<close>

type_synonym arow = "string \<times> string \<times> vtype list \<times> aret \<times> nat"

fun render_row :: "arow \<Rightarrow> opcode" where
  "render_row (v, k, ps, r, n) = (v, k, render_sig ps r, n)"

definition registered :: "string \<Rightarrow> bool" where
  "registered t \<longleftrightarrow> t \<in> set all_types"

fun wf_ret :: "aret \<Rightarrow> bool" where
  "wf_ret NoRet = True"
| "wf_ret UnitRet = True"
| "wf_ret (Ret v) = registered (type_name v)"

fun wf_row :: "arow \<Rightarrow> bool" where
  "wf_row (v, k, ps, r, n) \<longleftrightarrow>
     list_all (\<lambda>p. registered (type_name p)) ps \<and> wf_ret r \<and>
     (k = ''cast'' \<longrightarrow> length ps = 1 \<and> r \<noteq> NoRet \<and> r \<noteq> UnitRet) \<and>
     (ps = [] \<longrightarrow> r = NoRet)"

text \<open>The patterns of the table builder, as functions of the type names filled in.\<close>

definition binary_shapes :: "(string \<Rightarrow> string \<Rightarrow> string \<Rightarrow> vtype list \<times> aret) list" where
  "binary_shapes =
    [\<lambda>a b c. ([Scalar a, Scalar b], Ret (Scalar c)),
     \<lambda>a b c. ([Scalar a, Array b], Ret (Array c)),
     \<lambda>a b c. ([Array a, Scalar b], Ret (Array c)),
     \<lambda>a b c. ([Array a, Array b], Ret (Array c))]"

definition unary_shapes :: "(string \<Rightarrow> string \<Rightarrow> vtype list \<times> aret) list" where
  "unary_shapes =
    [\<lambda>a b. ([Scalar a], Ret (Scalar b)),
     \<lambda>a b. ([Array a], Ret (Array b))]"

definition a_row :: "string \<Rightarrow> string \<Rightarrow> vtype list \<times> aret \<Rightarrow> nat \<Rightarrow> arow" where
  "a_row v k sh n = (v, k, fst sh, snd sh, n)"

definition a_literal :: "arow list" where
  "a_literal = map (\<lambda>o'. a_row (emp_name o') (vvm_name o') ([], NoRet) (arity o')) literal_opcodes"

definition a_cast :: "arow list" where
  "a_cast =
    [a_row tgt ''cast'' (sh src tgt) 2.
       (tgts, srcs) \<leftarrow> cast_pairs, tgt \<leftarrow> tgts, src \<leftarrow> srcs, sh \<leftarrow> unary_shapes]"

definition a_print :: "arow list" where
  "a_print =
    [a_row ''print'' ''print'' (sh t) 2.
       sh \<leftarrow> [\<lambda>t. ([Scalar t], UnitRet), \<lambda>t. ([Array t], UnitRet)], t \<leftarrow> all_types]"

definition a_same_type_binary :: "(string \<times> string) list \<Rightarrow> string list \<Rightarrow> arow list" where
  "a_same_type_binary operators ts =
    [a_row v k (sh t t t) 3. (k, v) \<leftarrow> operators, sh \<leftarrow> binary_shapes, t \<leftarrow> ts]"

definition a_same_type_unary :: "(string \<times> string) list \<Rightarrow> string list \<Rightarrow> arow list" where
  "a_same_type_unary operators ts =
    [a_row v k (sh t t) 2. (k, v) \<leftarrow> operators, sh \<leftarrow> unary_shapes, t \<leftarrow> ts]"

definition a_reduce :: "(string \<times> string) list \<Rightarrow> string list \<Rightarrow> arow list" where
  "a_reduce operators ts =
    [a_row v k ([Array t], Ret (Scalar t)) 2. (k, v) \<leftarrow> operators, t \<leftarrow> ts]"

definition a_fixed_binary ::
  "(string \<times> string) list \<Rightarrow> string \<Rightarrow> string list \<Rightarrow> string list \<Rightarrow> arow list" where
  "a_fixed_binary operators res ts1 ts2 =
    [a_row v k (sh t1 t2 res) 3.
       (k, v) \<leftarrow> operators, sh \<leftarrow> binary_shapes, t1 \<leftarrow> ts1, t2 \<leftarrow> ts2]"

definition a_comparison :: "arow list" where
  "a_comparison =
    [a_row v k (sh t t ''Bool'') 3.
       (k, v) \<leftarrow> [(''lt'', ''<''), (''gt'', ''>''), (''eq'', ''==''), (''ne'', ''!=''),
                  (''lte'', ''<=''), (''gte'', ''>='')],
       sh \<leftarrow> binary_shapes, t \<leftarrow> all_types]"

definition a_time_arith :: "arow list" where
  "a_time_arith =
    [a_row v k (sh t t ''Timedelta'') 3.
       (k, v) \<leftarrow> [(''sub'', ''-'')], sh \<leftarrow> binary_shapes, t \<leftarrow> time_ish_types] @
    [a_row v k (sh t1 t2 t1) 3.
       (k, v) \<leftarrow> [(''add'', ''+''), (''sub'', ''-''), (''mul'', ''*''), (''div'', ''/''),
                  (''bar'', ''bar'')],
       sh \<leftarrow> binary_shapes,
       t1 \<leftarrow> time_ish_types @ timedelta_types, t2 \<leftarrow> timedelta_types] @
    [a_row v k (sh t1 t2 t2) 3.
       (k, v) \<leftarrow> [(''add'', ''+''), (''mul'', ''*'')],
       sh \<leftarrow> binary_shapes,
       t1 \<leftarrow> timedelta_types, t2 \<leftarrow> time_ish_types] @
    [a_row v k (sh t1 t2 ''Timestamp'') 3.
       (k, v) \<leftarrow> [(''add'', ''+'')], sh \<leftarrow> binary_shapes,
       t1 \<leftarrow> date_types, t2 \<leftarrow> time_types]"

definition a_unit :: "arow list" where
  "a_unit =
    [a_row (''suffix'' @ u) (''unit_'' @ u) ([Scalar ''Int64''], Ret (Scalar ''Timedelta'')) 2.
       u \<leftarrow> [''ns'', ''us'', ''ms'', ''s'', ''m'', ''h'', ''d'']]"

definition a_wrapper :: "arow list" where
  "a_wrapper =
    [a_row v k ([Array t], Ret (Scalar ''Int64'')) 2.
       (k, v) \<leftarrow> [(''len'', ''len''), (''count'', ''count'')], t \<leftarrow> all_types] @
    [a_row v k ([Scalar t], Ret (Array t)) 2.
       (k, v) \<leftarrow> [(''range'', ''range'')], t \<leftarrow> integer_types]"

definition a_manual :: "arow list" where
  "a_manual =
    [a_row [] k (sh t) v.
       (k, v) \<leftarrow> [(''del'', 1)],
       sh \<leftarrow> [\<lambda>t. ([Scalar t], NoRet), \<lambda>t. ([Array t], NoRet)], t \<leftarrow> all_types] @
    [a_row [] k ([Array t, Scalar ''Int64''], Ret (Scalar t)) v.
       (k, v) \<leftarrow> [(''idx'', 3)], t \<leftarrow> all_types]"

definition a_opcodes :: "arow list" where
  "a_opcodes =
     a_literal @
     [a_row ''now'' ''now'' ([Scalar ''Timestamp''], NoRet) 1] @
     a_cast @
     a_print @
     a_same_type_binary [(''or'', ''or''), (''and'', ''and'')] bool_types @
     a_same_type_binary [(''bitand'', ''&''), (''bitor'', ''|''), (''lshift'', ''<<''),
                       (''rshift'', ''>>''), (''mod'', ''%'')] integer_types @
     a_same_type_binary [(''add'', ''+''), (''sub'', ''-''), (''mul'', ''*''), (''div'', ''/'')]
                      arithmetic_types @
     a_comparison @
     a_same_type_unary [(''not'', ''not'')] bool_types @
     a_same_type_unary [(''neg'', ''-''), (''pos'', ''+'')] arithmetic_types @
     a_same_type_unary [(''sin'', ''sin''), (''cos'', ''cos''), (''tan'', ''tan''),
                      (''asin'', ''asin''), (''acos'', ''acos''), (''atan'', ''atan''),
                      (''sinh'', ''sinh''), (''cosh'', ''cosh''), (''tanh'', ''tanh''),
                      (''asinh'', ''asinh''), (''acosh'', ''acosh''), (''atanh'', ''atanh'')]
                     float_types @
     a_reduce [(''sum'', ''sum''), (''prod'', ''prod'')] arithmetic_types @
     a_same_type_binary [(''add'', ''+'')] string_types @
     a_reduce [(''sum'', ''sum'')] string_types @
     a_time_arith @
     a_unit @
     a_wrapper @
     a_manual"

definition arow_names :: "arow \<Rightarrow> string \<times> string" where
  "arow_names r = (fst (snd r), fst r)"

section \<open>Identifiers of structured rows\<close>

text \<open>
  The suffix that stands for one parameter: the tag of its type and \<open>s\<close> for a scalar,
  \<open>v\<close> for an array; and the suffixes of a parameter list, each after an underscore.
\<close>

fun type_suffix :: "vtype \<Rightarrow> string" where
  "type_suffix (Scalar t) = the (vvm_types_dict t) @ ''s''"
| "type_suffix (Array t) = the (vvm_types_dict t) @ ''v''"

definition ident_suffix :: "vtype list \<Rightarrow> string" where
  "ident_suffix ps = concat (map (\<lambda>p. ''_'' @ type_suffix p) ps)"

definition plain :: "string \<Rightarrow> bool" where
  "plain t \<longleftrightarrow> t \<noteq> [] \<and> list_all (\<lambda>c. c \<notin> set ''()[],->'') t"

text \<open>The identifier that get_opcode is shown to give for a structured row.\<close>

fun row_ident :: "arow \<Rightarrow> string" where
  "row_ident (v, k, ps, r, n) =
     k @ ident_suffix ps @
     (case r of Ret t \<Rightarrow> (if k = ''cast'' then ''_'' @ type_suffix t else []) | _ \<Rightarrow> [])"

section \<open>Decoding an identifier\<close>

text \<open>
  The round trip of the specification: the suffixes of an identifier, between
  underscores after the canonical name, are each a type tag followed by \<open>s\<close> (scalar)
  or \<open>v\<close> (array); the tag is resolved in the type registry, and an array is written
  in brackets.
\<close>

definition tag_types :: "string \<rightharpoonup> string" where
  "tag_types = map_of (map (\<lambda>(e, v, c). (v, e)) types)"

definition decode_suffix :: "string \<Rightarrow> string option" where
  "decode_suffix x =
     (if x = [] then None
      else (case tag_types (butlast x) of
              None \<Rightarrow> None
            | Some e \<Rightarrow>
                if last x = CHR ''s'' then Some e
                else if last x = CHR ''v'' then Some (''['' @ e @ '']'')
                else None))"

definition decode_opcode :: "string \<Rightarrow> string \<Rightarrow> string list option" where
  "decode_opcode name ident =
     (if ident = name then Some []
      else if take (length name + 1) ident = name @ ''_''
           then those (map decode_suffix (py_split ''_'' (drop (length name + 1) ident)))
      else None)"

text \<open>
  The parameter types of a signature, as the specification words them: the text before
  the arrow is a single type or a parenthesized comma list. The result type is the text
  after the arrow.
\<close>

definition sig_params :: "string \<Rightarrow> string list" where
  "sig_params tsig =
     (if tsig = [] then []
      else let params = hd (py_split ''->'' tsig)
           in if params \<noteq> [] \<and> hd params = CHR ''('' \<and> last params = CHR '')''
              then py_split '','' (butlast (tl params))
              else [params])"

definition sig_result :: "string \<Rightarrow> string option" where
  "sig_result tsig =
     (case py_split ''->'' tsig of _ # r # _ \<Rightarrow> Some r | _ \<Rightarrow> None)"

definition expected_types :: "opcode \<Rightarrow> string list" where
  "expected_types o' =
     sig_params (type_sig o') @
     (if vvm_name o' = ''cast'' then (case sig_result (type_sig o') of Some r \<Rightarrow> [r] | None \<Rightarrow> [])
      else [])"

text \<open>The types that the identifier of a structured row encodes.\<close>

fun row_types :: "arow \<Rightarrow> vtype list" where
  "row_types (v, k, ps, r, n) =
     ps @ (case r of Ret t \<Rightarrow> (if k = ''cast'' then [t] else []) | _ \<Rightarrow> [])"

section \<open>Names and the pieces of an identifier\<close>

text \<open>
  A canonical name of the table either has no underscore (and is not \<open>unit\<close>), or is
  \<open>unit_\<close> followed by a unit that has no underscore and is not the suffix of a type.
\<close>

definition good_name :: "string \<Rightarrow> bool" where
  "good_name k \<longleftrightarrow>
     (CHR ''_'' \<notin> set k \<and> k \<noteq> ''unit'') \<or>
     (take 5 k = ''unit_'' \<and> CHR ''_'' \<notin> set (drop 5 k) \<and> decode_suffix (drop 5 k) = None)"

definition name_pieces :: "string \<Rightarrow> string list" where
  "name_pieces k = (if CHR ''_'' \<notin> set k then [k] else [''unit'', drop 5 k])"

definition row_key :: "arow \<Rightarrow> string \<times> vtype list" where
  "row_key r = (fst (snd r), row_types r)"

definition row_pieces :: "arow \<Rightarrow> string list" where
  "row_pieces r = name_pieces (fst (snd r)) @ map type_suffix (row_types r)"

text \<open>
  A block of keys: every name of a family with every parameter list of the family. The
  table builder loops over the operators outermost, so each family is such a block.
\<close>

definition key_block :: "string list \<Rightarrow> 'a list \<Rightarrow> (string \<times> 'a) list" where
  "key_block ks tls = concat (map (\<lambda>k. map (Pair k) tls) ks)"

definition disjoint_lists :: "'a list \<Rightarrow> 'a list \<Rightarrow> bool" where
  "disjoint_lists xs ys = list_all (\<lambda>x. x \<notin> set ys) xs"

fun blocks_ok :: "(string list \<times> 'a list) list \<Rightarrow> bool" where
  "blocks_ok [] = True"
| "blocks_ok ((ks, tls) # bs) =
     (distinct ks \<and> distinct tls \<and>
      list_all (\<lambda>(ks', tls'). if disjoint_lists ks ks' then True else disjoint_lists tls tls') bs \<and>
      blocks_ok bs)"

text \<open>The parameter lists of the families, and the blocks of the whole table.\<close>

definition binary_params :: "string list \<Rightarrow> vtype list list" where
  "binary_params ts = map fst [sh t t t. sh \<leftarrow> binary_shapes, t \<leftarrow> ts]"

definition binary_params_two :: "string list \<Rightarrow> string list \<Rightarrow> vtype list list" where
  "binary_params_two ts1 ts2 =
     map fst [sh t1 t2 t1. sh \<leftarrow> binary_shapes, t1 \<leftarrow> ts1, t2 \<leftarrow> ts2]"

definition unary_params :: "string list \<Rightarrow> vtype list list" where
  "unary_params ts = map fst [sh t t. sh \<leftarrow> unary_shapes, t \<leftarrow> ts]"

definition cast_types :: "vtype list list" where
  "cast_types =
     [row_types (a_row tgt ''cast'' (sh src tgt) 2).
        (tgts, srcs) \<leftarrow> cast_pairs, tgt \<leftarrow> tgts, src \<leftarrow> srcs, sh \<leftarrow> unary_shapes]"

definition key_blocks :: "(string list \<times> vtype list list) list" where
  "key_blocks =
    [(map vvm_name literal_opcodes, [[]]),
     ([''now''], [[Scalar ''Timestamp'']]),
     ([''cast''], cast_types),
     ([''print''], unary_params all_types),
     ([''or'', ''and''], binary_params bool_types),
     ([''bitand'', ''bitor'', ''lshift'', ''rshift'', ''mod''], binary_params integer_types),
     ([''add'', ''sub'', ''mul'', ''div''], binary_params arithmetic_types),
     ([''lt'', ''gt'', ''eq'', ''ne'', ''lte'', ''gte''], binary_params all_types),
     ([''not''], unary_params bool_types),
     ([''neg'', ''pos''], unary_params arithmetic_types),
     ([''sin'', ''cos'', ''tan'', ''asin'', ''acos'', ''atan'', ''sinh'', ''cosh'', ''tanh'',
       ''asinh'', ''acosh'', ''atanh''], unary_params float_types),
     ([''sum'', ''prod''], map (\<lambda>t. [Array t]) arithmetic_types),
     ([''add''], binary_params string_types),
     ([''sum''], map (\<lambda>t. [Array t]) string_types),
     ([''sub''], binary_params time_ish_types),
     ([''add'', ''sub'', ''mul'', ''div'', ''bar''],
        binary_params_two (time_ish_types @ timedelta_types) timedelta_types),
     ([''add'', ''mul''], binary_params_two timedelta_types time_ish_types),
     ([''add''], binary_params_two date_types time_types),
     (map (\<lambda>u. ''unit_'' @ u) [''ns'', ''us'', ''ms'', ''s'', ''m'', ''h'', ''d''],
        [[Scalar ''Int64'']]),
     ([''len'', ''count''], map (\<lambda>t. [Array t]) all_types),
     ([''range''], map (\<lambda>t. [Scalar t]) integer_types),
     ([''del''], unary_params all_types),
     ([''idx''], map (\<lambda>t. [Array t, Scalar ''Int64'']) all_types)]"

text \<open>The identifiers of the table, in its order.\<close>

definition opcode_idents :: "string list" where
  "opcode_idents = map row_ident a_opcodes"

section \<open>Scalar and array forms of a signature\<close>

text \<open>
  A signature is in scalar form when it names at least one type and no array, that is
  when it is not empty and has no bracket. Its array form wraps every type name in
  brackets; a type name is a maximal run of characters other than the punctuation of
  signatures, so the unit result \<^verbatim>\<open>()\<close> stays as it is.
\<close>

definition scalar_form :: "string \<Rightarrow> bool" where
  "scalar_form tsig \<longleftrightarrow> tsig \<noteq> [] \<and> CHR ''['' \<notin> set tsig"

definition close_name :: "string \<Rightarrow> string" where
  "close_name acc = (if acc = [] then [] else ''['' @ acc @ '']'')"

fun wrap_names :: "string \<Rightarrow> string \<Rightarrow> string" where
  "wrap_names acc [] = close_name acc"
| "wrap_names acc (c # cs) =
     (if c \<in> set ''()[],->'' then close_name acc @ c # wrap_names [] cs
      else wrap_names (acc @ [c]) cs)"

definition array_form :: "string \<Rightarrow> string" where
  "array_form tsig = wrap_names [] tsig"

fun to_array :: "vtype \<Rightarrow> vtype" where
  "to_array (Scalar t) = Array t"
| "to_array (Array t) = Array t"

fun array_ret :: "aret \<Rightarrow> aret" where
  "array_ret NoRet = NoRet"
| "array_ret UnitRet = UnitRet"
| "array_ret (Ret t) = Ret (to_array t)"

fun is_scalar :: "vtype \<Rightarrow> bool" where
  "is_scalar (Scalar t) = True"
| "is_scalar (Array t) = False"

fun scalar_ret :: "aret \<Rightarrow> bool" where
  "scalar_ret NoRet = True"
| "scalar_ret UnitRet = True"
| "scalar_ret (Ret t) = is_scalar t"

fun scalar_row :: "arow \<Rightarrow> bool" where
  "scalar_row (v, k, ps, r, n) \<longleftrightarrow> ps \<noteq> [] \<and> list_all is_scalar ps \<and> scalar_ret r"

fun array_row :: "arow \<Rightarrow> arow" where
  "array_row (v, k, ps, r, n) = (v, k, map to_array ps, array_ret r, n)"

section \<open>Basic facts about the registry\<close>

lemmas type_lists =
  integer_types_def float_types_def bool_types_def string_types_def char_types_def
  timestamp_types_def timedelta_types_def time_types_def date_types_def
  arithmetic_types_def time_ish_types_def all_types_def

section \<open>Facts about the string primitives\<close>

lemma first_index_None: "first_index c xs = None \<longleftrightarrow> c \<notin> set xs"
  by (induction xs) auto

lemma first_index_Some:
  "first_index c xs = Some k \<Longrightarrow> k < length xs \<and> xs ! k = c \<and> c \<notin> set (take k xs)"
proof (induction xs arbitrary: k)
  case Nil
  then show ?case by simp
next
  case (Cons x xs)
  show ?case
  proof (cases "x = c")
    case True
    with Cons.prems show ?thesis by simp
  next
    case False
    with Cons.prems obtain k' where k': "first_index c xs = Some k'" "k = Suc k'"
      by auto
    from Cons.IH [OF k'(1)] False k'(2) show ?thesis by simp
  qed
qed

lemma last_index_None: "last_index c xs = None \<longleftrightarrow> c \<notin> set xs"
  by (induction xs) (auto split: option.splits)

lemma last_index_Some:
  "last_index c xs = Some k \<Longrightarrow> k < length xs \<and> xs ! k = c"
  by (induction xs arbitrary: k) (auto split: option.splits if_splits)

lemma py_norm_le: "py_norm k n \<le> n"
  unfolding py_norm_def by (cases "k < 0") auto

lemma py_norm_zero: "py_norm 0 n = 0"
  by (simp add: py_norm_def)

lemma py_norm_nonneg_le: "0 \<le> k \<Longrightarrow> int (py_norm k n) \<le> k"
  unfolding py_norm_def by auto

lemma py_norm_length: "py_norm (int n) n = n"
  by (simp add: py_norm_def)

lemma py_norm_in_range: "0 \<le> k \<Longrightarrow> k \<le> int n \<Longrightarrow> py_norm k n = nat k"
  by (simp add: py_norm_def)

lemma py_rfind_absent: "c \<notin> set s \<Longrightarrow> py_rfind c s 0 e = - 1"
proof -
  assume "c \<notin> set s"
  then have "c \<notin> set (take (py_norm e (length s)) s)"
    by (auto dest: in_set_takeD)
  then show ?thesis
    by (simp add: py_rfind_def py_norm_zero last_index_None [symmetric])
qed

lemma py_rfind_found:
  assumes "py_rfind c s 0 e = r" and "r \<noteq> - 1"
  shows "0 \<le> r \<and> nat r < py_norm e (length s) \<and> nat r < length s \<and> s ! nat r = c"
proof -
  let ?w = "take (py_norm e (length s)) s"
  from assms obtain k where k: "last_index c ?w = Some k" "r = int k"
    by (auto simp: py_rfind_def py_norm_zero split: option.splits)
  from last_index_Some [OF k(1)] have "k < length ?w" "?w ! k = c"
    by simp_all
  then show ?thesis
    using k(2) by simp
qed

lemma py_find_absent: "c \<notin> set s \<Longrightarrow> py_find c s 0 (int (length s)) = - 1"
  by (simp add: py_find_def py_norm_zero py_norm_length first_index_None [symmetric])

lemma py_find_found:
  assumes "c \<in> set s"
  shows "0 \<le> py_find c s 0 (int (length s)) \<and>
         nat (py_find c s 0 (int (length s))) < length s \<and>
         c \<notin> set (take (nat (py_find c s 0 (int (length s)))) s)"
proof -
  from assms obtain k where k: "first_index c s = Some k"
    using first_index_None [of c s] by (cases "first_index c s") auto
  from first_index_Some [OF k] k show ?thesis
    by (simp add: py_find_def py_norm_zero py_norm_length)
qed

lemma py_count_absent: "c \<notin> set s \<Longrightarrow> py_count c (py_slice_to s i) = 0"
  by (auto simp: py_count_def py_slice_to_def filter_empty_conv dest: in_set_takeD)

lemma break_index_no_quote:
  "CHR 0x22 \<notin> set cur \<Longrightarrow>
   break_index cur sz =
     (if py_rfind CHR '' '' cur 0 sz = - 1
      then py_find CHR '' '' cur 0 (int (length cur))
      else py_rfind CHR '' '' cur 0 sz)"
  by (simp add: break_index_def Let_def py_count_absent)

lemma first_line_indent_le: "fst (first_line_indent cur i sz padding) \<le> sz"
  by (simp add: first_line_indent_def Let_def)

lemma first_line_indent_inv:
  assumes "first_line_indent cur i sz [] = (sz', padding')"
  shows "set padding' \<subseteq> {CHR '' ''} \<and> int (length padding') + sz' = sz"
  using assms by (auto simp: first_line_indent_def Let_def split: if_splits)

section \<open>Rounds that cannot end\<close>

lemma reflow_loop_negative_size:
  "sz < 0 \<Longrightarrow> reflow_loop fuel lines cur padding sz = None"
proof (induction fuel arbitrary: lines cur padding sz)
  case 0
  then show ?case by simp
next
  case (Suc fuel)
  have le: "fst (first_line_indent cur (break_index cur sz) sz padding) \<le> sz"
    by (rule first_line_indent_le)
  from Suc.prems have gt: "int (length cur) > sz" by simp
  show ?case
    using gt Suc.prems le
    by (auto simp: Let_def split: prod.splits intro!: Suc.IH)
qed

lemma reflow_loop_no_space:
  assumes "CHR '' '' \<notin> set cur" and "CHR 0x22 \<notin> set cur" and "int (length cur) > sz"
  shows "reflow_loop fuel lines cur padding sz = None"
  using assms
proof (induction fuel arbitrary: lines padding sz)
  case 0
  then show ?case by simp
next
  case (Suc fuel)
  have bi: "break_index cur sz = - 1"
    using Suc.prems(1,2) by (simp add: break_index_no_quote py_rfind_absent py_find_absent)
  have keep: "py_slice_from cur 0 = cur"
    by (simp add: py_slice_from_def py_norm_zero)
  have le: "fst (first_line_indent cur (- 1) sz padding) \<le> sz"
    by (rule first_line_indent_le)
  show ?case
    using Suc.prems le bi keep
    by (auto simp: Let_def split: prod.splits intro!: Suc.IH)
qed

section \<open>Lines of a returning call\<close>

lemma reflow_loop_lines:
  assumes "reflow_loop fuel lines cur padding sz = Some ls"
    and "CHR 0x22 \<notin> set cur"
    and "set padding \<subseteq> {CHR '' ''}"
    and "int (length padding) + sz = budget"
    and "lines = [] \<longrightarrow> padding = []"
    and "\<forall>l\<in>set lines. line_ok budget l"
  shows "\<forall>l\<in>set ls. line_ok budget l"
  using assms
proof (induction fuel arbitrary: lines cur padding sz)
  case 0
  then show ?case by simp
next
  case (Suc fuel)
  show ?case
  proof (cases "int (length cur) > sz")
    case False
    with Suc.prems(1) have ls: "ls = lines @ [padding @ cur]" by simp
    from False Suc.prems(4) have "line_ok budget (padding @ cur)"
      by (simp add: line_ok_def)
    with Suc.prems(6) ls show ?thesis by simp
  next
    case True
    have nonneg: "0 \<le> sz"
      using reflow_loop_negative_size [of sz "Suc fuel" lines cur padding] Suc.prems(1)
      by (cases "sz < 0") simp_all
    have space: "CHR '' '' \<in> set cur"
      using reflow_loop_no_space [OF _ Suc.prems(2) True, of "Suc fuel" lines padding]
        Suc.prems(1)
      by (cases "CHR '' '' \<in> set cur") simp_all
    define i where "i = break_index cur sz"
    define line where "line = padding @ py_slice_to cur i"
    define st where
      "st = (if length (lines @ [line]) = 1 then first_line_indent cur i sz padding
             else (sz, padding))"
    have run: "reflow_loop fuel (lines @ [line]) (py_slice_from cur (i + 1)) (snd st) (fst st)
               = Some ls"
      using Suc.prems(1) True
      by (auto simp: Let_def i_def line_def st_def split: prod.splits if_splits)
    have i_range: "0 \<le> i \<and> nat i < length cur"
      and line: "line_ok budget line"
    proof -
      show "0 \<le> i \<and> nat i < length cur"
        using py_rfind_found [of "CHR '' ''" cur sz] py_find_found [OF space] Suc.prems(2)
        by (auto simp: i_def break_index_no_quote)
      show "line_ok budget line"
      proof (cases "py_rfind CHR '' '' cur 0 sz = - 1")
        case True
        then have i: "i = py_find CHR '' '' cur 0 (int (length cur))"
          using Suc.prems(2) by (simp add: i_def break_index_no_quote)
        from py_find_found [OF space] i
        have "0 \<le> i" "nat i < length cur" "CHR '' '' \<notin> set (take (nat i) cur)"
          by simp_all
        then have "CHR '' '' \<notin> set (py_slice_to cur i)"
          by (simp add: py_slice_to_def py_norm_in_range)
        with Suc.prems(3) show ?thesis
          unfolding line_ok_def line_def by blast
      next
        case False
        then have i: "i = py_rfind CHR '' '' cur 0 sz"
          using Suc.prems(2) by (simp add: i_def break_index_no_quote)
        from py_rfind_found [OF i [symmetric]] False i
        have r: "0 \<le> i" "nat i < py_norm sz (length cur)" "nat i < length cur"
          by simp_all
        from r(2) py_norm_nonneg_le [OF nonneg, of "length cur"] have "i < sz"
          using r(1) by linarith
        moreover have "length (py_slice_to cur i) = nat i"
          using r(1,3) by (simp add: py_slice_to_def py_norm_in_range)
        ultimately show ?thesis
          using Suc.prems(4) r(1) by (simp add: line_ok_def line_def)
      qed
    qed
    have cur': "CHR 0x22 \<notin> set (py_slice_from cur (i + 1))"
      using Suc.prems(2) by (auto simp: py_slice_from_def dest: in_set_dropD)
    have inv: "set (snd st) \<subseteq> {CHR '' ''} \<and> int (length (snd st)) + fst st = budget"
    proof (cases "lines = []")
      case True
      with Suc.prems(5) have "padding = []" by simp
      with True Suc.prems(4) first_line_indent_inv [of cur i sz "fst st" "snd st"]
      show ?thesis by (simp add: st_def)
    next
      case False
      with Suc.prems(3,4) show ?thesis by (simp add: st_def)
    qed
    have all: "\<forall>l\<in>set (lines @ [line]). line_ok budget l"
      using Suc.prems(6) line by simp
    show ?thesis
      by (rule Suc.IH [OF run cur' _ _ _ all]) (use inv in simp_all)
  qed
qed


lemma last_index_max:
  "last_index c xs = Some k \<Longrightarrow> k < j \<Longrightarrow> j < length xs \<Longrightarrow> xs ! j \<noteq> c"
proof (induction xs arbitrary: k j)
  case Nil
  then show ?case by simp
next
  case (Cons x xs)
  show ?case
  proof (cases "last_index c xs")
    case None
    then have "c \<notin> set xs" by (simp add: last_index_None)
    moreover from Cons.prems obtain j' where "j = Suc j'" "j' < length xs"
      by (cases j) auto
    ultimately show ?thesis by auto
  next
    case (Some k')
    with Cons.prems have k: "k = Suc k'" by simp
    with Cons.prems obtain j' where j: "j = Suc j'" "k' < j'" "j' < length xs"
      by (cases j) auto
    from Cons.IH [OF Some j(2,3)] j(1) show ?thesis by simp
  qed
qed

lemma py_rfind_none_before:
  assumes "py_rfind c s 0 e = - 1" and "0 \<le> e" and "k < length s" and "int k < e"
  shows "s ! k \<noteq> c"
proof -
  let ?b = "py_norm e (length s)"
  from assms(1) have "last_index c (take ?b s) = None"
    by (auto simp: py_rfind_def py_norm_zero split: option.splits)
  then have notin: "c \<notin> set (take ?b s)" by (simp add: last_index_None)
  have "k < ?b" using assms(2-4) by (auto simp: py_norm_def)
  then have "s ! k \<in> set (take ?b s)"
    using assms(3) by (metis in_set_conv_nth length_take min_less_iff_conj nth_take)
  with notin show ?thesis by auto
qed

lemma py_rfind_last:
  assumes "py_rfind c s 0 e = r" and "r \<noteq> - 1" and "r < int k" and "int k < e"
    and "k < length s"
  shows "s ! k \<noteq> c"
proof -
  let ?b = "py_norm e (length s)"
  from assms(1,2) obtain m where m: "last_index c (take ?b s) = Some m" "r = int m"
    by (auto simp: py_rfind_def py_norm_zero split: option.splits)
  have "k < ?b" using assms(3-5) m(2) by (auto simp: py_norm_def)
  then have "k < length (take ?b s)" using assms(5) by simp
  from last_index_max [OF m(1) _ this] assms(3) m(2) \<open>k < ?b\<close>
  show ?thesis by simp
qed

lemma py_find_at:
  assumes "c \<in> set s"
  shows "s ! nat (py_find c s 0 (int (length s))) = c"
proof -
  from assms obtain k where k: "first_index c s = Some k"
    using first_index_None [of c s] by (cases "first_index c s") auto
  from first_index_Some [OF k] k show ?thesis
    by (simp add: py_find_def py_norm_zero py_norm_length)
qed

lemma break_index_choice:
  assumes "CHR 0x22 \<notin> set cur" and "0 \<le> sz"
  shows "break_choice cur sz (break_index cur sz)"
proof (cases "py_rfind CHR '' '' cur 0 sz = - 1")
  case True
  then have none: "\<not> (\<exists>k<length cur. int k < sz \<and> cur ! k = CHR '' '')"
    using py_rfind_none_before [OF True assms(2)] by blast
  have i: "break_index cur sz = py_find CHR '' '' cur 0 (int (length cur))"
    using True assms(1) by (simp add: break_index_no_quote)
  from none have c: "(\<exists>k<length cur. int k < sz \<and> cur ! k = CHR '' '') = False"
    by blast
  show ?thesis
  proof (cases "CHR '' '' \<in> set cur")
    case True
    from py_find_found [OF True] py_find_at [OF True] i True
    show ?thesis unfolding break_choice_def c by simp
  next
    case False
    with i show ?thesis unfolding break_choice_def c by (simp add: py_find_absent)
  qed
next
  case False
  define r where "r = py_rfind CHR '' '' cur 0 sz"
  have i: "break_index cur sz = r"
    using False assms(1) by (simp add: break_index_no_quote r_def)
  from py_rfind_found [OF r_def [symmetric]] False
  have r: "0 \<le> r" "nat r < py_norm sz (length cur)" "nat r < length cur"
    "cur ! nat r = CHR '' ''"
    by (simp_all add: r_def)
  from r(1,2) py_norm_nonneg_le [OF assms(2), of "length cur"] have lt: "r < sz"
    by linarith
  have ex: "\<exists>k<length cur. int k < sz \<and> cur ! k = CHR '' ''"
    using r lt by (intro exI [of _ "nat r"]) simp
  have last: "\<forall>k<length cur. r < int k \<and> int k < sz \<longrightarrow> cur ! k \<noteq> CHR '' ''"
    using py_rfind_last [OF r_def [symmetric]] False by (auto simp: r_def)
  show ?thesis
    unfolding break_choice_def i using ex r lt last by simp
qed

text \<open>
  What does hold of a returning call on a line without double quotes: each returned
  line, once indented, is within the 80 columns or is continuation padding followed by a
  word without a space; and the break position computed for a text without double quotes
  and a budget that is not negative is the last space before the budget when there is
  one, else the first space, else -1.
\<close>

lemma reflow_lines_budget_or_word:
  "(reflow_lines fuel s depth = Some ls \<and> CHR 0x22 \<notin> set s \<and> l \<in> set ls \<longrightarrow>
      int (length l) + depth * TABSIZE \<le> MAX_COL \<or>
      (\<exists>pad w. l = pad @ w \<and> set pad \<subseteq> {CHR '' ''} \<and> CHR '' '' \<notin> set w)) \<and>
   (CHR 0x22 \<notin> set cur \<and> 0 \<le> sz \<longrightarrow> break_choice cur sz (break_index cur sz))"
proof (intro conjI impI)
  assume a: "reflow_lines fuel s depth = Some ls \<and> CHR 0x22 \<notin> set s \<and> l \<in> set ls"
  define budget where "budget = MAX_COL - depth * TABSIZE"
  have "line_ok budget l"
  proof (cases "int (length s) < budget")
    case True
    with a have "ls = [s]" by (auto simp: reflow_lines_def budget_def Let_def)
    with a True show ?thesis by (simp add: line_ok_def)
  next
    case False
    with a have run: "reflow_loop fuel [] s [] budget = Some ls"
      by (auto simp: reflow_lines_def budget_def Let_def)
    have "\<forall>l\<in>set ls. line_ok budget l"
      by (rule reflow_loop_lines [OF run]) (use a in simp_all)
    with a show ?thesis by blast
  qed
  then show "int (length l) + depth * TABSIZE \<le> MAX_COL \<or>
      (\<exists>pad w. l = pad @ w \<and> set pad \<subseteq> {CHR '' ''} \<and> CHR '' '' \<notin> set w)"
    by (auto simp: line_ok_def budget_def)
next
  assume "CHR 0x22 \<notin> set cur \<and> 0 \<le> sz"
  then show "break_choice cur sz (break_index cur sz)"
    by (simp add: break_index_choice)
qed

text \<open>
  C9. The claim (and the docstring of reflow_lines: no line extends beyond MAX_COL when
  properly indented) is not met by the code. On 81 letters, a space and one more letter
  at depth 0 no space precedes the budget, the fallback takes the first space, and the
  first returned line is 81 columns wide. On a line where the last quote before the
  candidate break directly follows another quote, the back-up puts the break after an
  odd number of quotes, and the quote at index 3 of the input appears in no returned line.
\<close>

theorem reflow_lines_breaks_budget:
  "reflow_lines 5 (replicate 81 CHR ''a'' @ '' b'') 0 = Some [replicate 81 CHR ''a'', ''b''] \<and>
   \<not> int (length (replicate 81 CHR ''a'')) + 0 * TABSIZE \<le> MAX_COL \<and>
   reflow_lines 5 (''a '' @ [CHR 0x22, CHR 0x22, CHR 0x22] @ '' '' @ replicate 75 CHR ''b'') 0
     = Some [''a '' @ [CHR 0x22], CHR 0x22 # '' '' @ replicate 75 CHR ''b''] \<and>
   odd (py_count (CHR 0x22) (''a '' @ [CHR 0x22])) \<and>
   py_count (CHR 0x22)
     (''a '' @ [CHR 0x22, CHR 0x22, CHR 0x22] @ '' '' @ replicate 75 CHR ''b'') = 3 \<and>
   py_count (CHR 0x22)
     (concat [''a '' @ [CHR 0x22], CHR 0x22 # '' '' @ replicate 75 CHR ''b'']) = 2"
  by code_simp

text \<open>
  C10. A line longer than the budget that holds no space (and no double quote) never
  leaves the loop: the break position is -1, so the remaining text stays as it is while
  the budget can only shrink. No number of rounds makes the call on 81 letters return.
\<close>

theorem reflow_lines_no_space_diverges:
  "reflow_lines fuel (replicate 81 CHR ''a'') 0 = None"
proof -
  have "reflow_loop fuel [] (replicate 81 CHR ''a'') [] 80 = None"
    by (rule reflow_loop_no_space) simp_all
  then show ?thesis
    by (simp add: reflow_lines_def MAX_COL_def TABSIZE_def)
qed

section \<open>The as-of dispatch\<close>

text \<open>
  C8 (as stated) fails. The generated \<^verbatim>\<open>asofnear_arr\<close> has a case for the scalar Bool
  tag, and that case is \<^verbatim>\<open>throw err;\<close>: a failure path at run time for an input that
  the claim calls statically impossible.
\<close>

theorem asof_restricted_counterexample:
  "(''asofnear_arr'', asof_cases_restricted) \<in> set asof_writer \<and>
   map_of asof_cases_restricted ''b8s'' = Some ThrowErr"
  by (simp add: asof_writer_def asof_cases_restricted_def types_def type_lists)

text \<open>
  C8 (as amended). AsofWriter emits six functions, in this order and under these names.
  \<^verbatim>\<open>asofnear_arr\<close>, \<^verbatim>\<open>asofwithin_arr\<close>, \<^verbatim>\<open>eqasofnear_df\<close> and \<^verbatim>\<open>eqasofwithin_df\<close>
  each switch over all 18 type tags: the tags of Int64, Float64, Timestamp, Time and
  Date forward to the implementation at that C++ type, and the tags of Bool, String, Char
  and Timedelta throw the logic error at run time. \<^verbatim>\<open>asofmatch_arr\<close> and
  \<^verbatim>\<open>eqasofmatch_df\<close> forward for every one of the 18 tags.
\<close>

theorem asof_restricted_dispatch:
  "map fst asof_writer =
     [''asofmatch_arr'', ''asofnear_arr'', ''asofwithin_arr'',
      ''eqasofmatch_df'', ''eqasofnear_df'', ''eqasofwithin_df''] \<and>
   map_of asof_writer ''asofmatch_arr'' = Some asof_cases_all \<and>
   map_of asof_writer ''asofnear_arr'' = Some asof_cases_restricted \<and>
   map_of asof_writer ''asofwithin_arr'' = Some asof_cases_restricted \<and>
   map_of asof_writer ''eqasofmatch_df'' = Some asof_cases_all \<and>
   map_of asof_writer ''eqasofnear_df'' = Some asof_cases_restricted \<and>
   map_of asof_writer ''eqasofwithin_df'' = Some asof_cases_restricted \<and>
   asof_cases_restricted =
    [(''i64s'', Forward ''int64_t''), (''i64v'', Forward ''int64_t''),
     (''f64s'', Forward ''double''), (''f64v'', Forward ''double''),
     (''b8s'', ThrowErr), (''b8v'', ThrowErr),
     (''Ss'', ThrowErr), (''Sv'', ThrowErr),
     (''c8s'', ThrowErr), (''c8v'', ThrowErr),
     (''Ts'', Forward ''Timestamp''), (''Tv'', Forward ''Timestamp''),
     (''Ds'', ThrowErr), (''Dv'', ThrowErr),
     (''TIs'', Forward ''Time''), (''TIv'', Forward ''Time''),
     (''DAs'', Forward ''Date''), (''DAv'', Forward ''Date'')] \<and>
   asof_cases_all =
    [(''i64s'', Forward ''int64_t''), (''i64v'', Forward ''int64_t''),
     (''f64s'', Forward ''double''), (''f64v'', Forward ''double''),
     (''b8s'', Forward ''bool''), (''b8v'', Forward ''bool''),
     (''Ss'', Forward ''std::string''), (''Sv'', Forward ''std::string''),
     (''c8s'', Forward ''char''), (''c8v'', Forward ''char''),
     (''Ts'', Forward ''Timestamp''), (''Tv'', Forward ''Timestamp''),
     (''Ds'', Forward ''Timedelta''), (''Dv'', Forward ''Timedelta''),
     (''TIs'', Forward ''Time''), (''TIv'', Forward ''Time''),
     (''DAs'', Forward ''Date''), (''DAv'', Forward ''Date'')]"
  by (simp add: asof_writer_def asof_cases_restricted_def asof_cases_all_def types_def
      type_lists)

section \<open>The table as rendered structured rows\<close>

lemma rr: "render_row (a_row v k sh n) = (v, k, render_sig (fst sh) (snd sh), n)"
  by (simp add: a_row_def)

lemma r_literal: "literal_opcodes = map render_row a_literal"
  by (simp add: a_literal_def rr o_def render_sig_def emp_name_def vvm_name_def arity_def
      type_sig_def literal_opcodes_def)

lemma r_binary: "same_type_binary ops ts = map render_row (a_same_type_binary ops ts)"
  by (simp add: same_type_binary_def a_same_type_binary_def map_concat o_def rr
      binary_patterns_def binary_shapes_def render_sig_def split_def)

lemma r_unary: "same_type_unary ops ts = map render_row (a_same_type_unary ops ts)"
  by (simp add: same_type_unary_def a_same_type_unary_def map_concat o_def rr
      unary_patterns_def unary_shapes_def render_sig_def split_def)

lemma r_reduce: "reduce_opcodes ops ts = map render_row (a_reduce ops ts)"
  by (simp add: reduce_opcodes_def a_reduce_def map_concat o_def rr render_sig_def split_def)

lemma r_cast: "cast_opcodes = map render_row a_cast"
  by (simp add: cast_opcodes_def a_cast_def map_concat o_def rr
      unary_shapes_def render_sig_def split_def)

lemma r_print: "print_opcodes = map render_row a_print"
  by (simp add: print_opcodes_def a_print_def map_concat o_def rr render_sig_def split_def)

lemma r_comparison: "comparison_opcodes = map render_row a_comparison"
  by (simp add: comparison_opcodes_def a_comparison_def map_concat o_def rr
      binary_shapes_def render_sig_def split_def)

lemma r_time: "time_arith_opcodes = map render_row a_time_arith"
  by (simp add: time_arith_opcodes_def a_time_arith_def map_concat o_def rr
      binary_patterns_def binary_shapes_def render_sig_def split_def)

lemma r_unit: "unit_opcodes = map render_row a_unit"
  by (simp add: unit_opcodes_def a_unit_def map_concat o_def rr render_sig_def split_def)

lemma r_wrapper: "wrapper_opcodes = map render_row a_wrapper"
  by (simp add: wrapper_opcodes_def a_wrapper_def map_concat o_def rr render_sig_def split_def)

lemma r_manual: "manual_opcodes = map render_row a_manual"
  by (simp add: manual_opcodes_def a_manual_def map_concat o_def rr render_sig_def split_def)

lemma opcodes_render: "opcodes = map render_row a_opcodes"
  unfolding opcodes_def a_opcodes_def map_append
    r_literal [symmetric] r_binary [symmetric] r_unary [symmetric] r_reduce [symmetric]
    r_cast [symmetric] r_print [symmetric] r_comparison [symmetric] r_time [symmetric]
    r_unit [symmetric] r_wrapper [symmetric] r_manual [symmetric]
  by (simp add: rr render_sig_def)

section \<open>Names of the rows\<close>

lemma arow_names_row [simp]: "arow_names (a_row v k sh n) = (k, v)"
  by (simp add: arow_names_def a_row_def)

lemma in_a_opcodes:
  "r \<in> set a_opcodes \<longleftrightarrow>
     r \<in> set a_literal \<or>
     r = a_row ''now'' ''now'' ([Scalar ''Timestamp''], NoRet) 1 \<or>
     r \<in> set a_cast \<or>
     r \<in> set a_print \<or>
     r \<in> set (a_same_type_binary [(''or'', ''or''), (''and'', ''and'')] bool_types) \<or>
     r \<in> set (a_same_type_binary [(''bitand'', ''&''), (''bitor'', ''|''), (''lshift'', ''<<''),
                       (''rshift'', ''>>''), (''mod'', ''%'')] integer_types) \<or>
     r \<in> set (a_same_type_binary [(''add'', ''+''), (''sub'', ''-''), (''mul'', ''*''),
                       (''div'', ''/'')] arithmetic_types) \<or>
     r \<in> set a_comparison \<or>
     r \<in> set (a_same_type_unary [(''not'', ''not'')] bool_types) \<or>
     r \<in> set (a_same_type_unary [(''neg'', ''-''), (''pos'', ''+'')] arithmetic_types) \<or>
     r \<in> set (a_same_type_unary [(''sin'', ''sin''), (''cos'', ''cos''), (''tan'', ''tan''),
                      (''asin'', ''asin''), (''acos'', ''acos''), (''atan'', ''atan''),
                      (''sinh'', ''sinh''), (''cosh'', ''cosh''), (''tanh'', ''tanh''),
                      (''asinh'', ''asinh''), (''acosh'', ''acosh''), (''atanh'', ''atanh'')]
                     float_types) \<or>
     r \<in> set (a_reduce [(''sum'', ''sum''), (''prod'', ''prod'')] arithmetic_types) \<or>
     r \<in> set (a_same_type_binary [(''add'', ''+'')] string_types) \<or>
     r \<in> set (a_reduce [(''sum'', ''sum'')] string_types) \<or>
     r \<in> set a_time_arith \<or>
     r \<in> set a_unit \<or>
     r \<in> set a_wrapper \<or>
     r \<in> set a_manual"
  unfolding a_opcodes_def set_append Un_iff by simp

lemma names_binary: "r \<in> set (a_same_type_binary ops ts) \<Longrightarrow> arow_names r \<in> set ops"
  by (auto simp: a_same_type_binary_def)

lemma names_unary: "r \<in> set (a_same_type_unary ops ts) \<Longrightarrow> arow_names r \<in> set ops"
  by (auto simp: a_same_type_unary_def)

lemma names_reduce: "r \<in> set (a_reduce ops ts) \<Longrightarrow> arow_names r \<in> set ops"
  by (auto simp: a_reduce_def)

lemma literal_emp_name: "o' \<in> set literal_opcodes \<Longrightarrow> emp_name o' = []"
  by (auto simp: emp_name_def literal_opcodes_def)

lemma names_literal: "r \<in> set a_literal \<Longrightarrow> arow_names r \<in> set name_table"
  unfolding name_table_def set_append Un_iff
  by (rule disjI1) (auto simp: a_literal_def literal_emp_name image_iff)

lemma cast_targets: "(tgts, srcs) \<in> set cast_pairs \<Longrightarrow> set tgts \<subseteq> set all_types"
  by (auto simp: cast_pairs_def type_lists)

lemma names_cast:
  assumes "r \<in> set a_cast"
  shows "arow_names r \<in> set name_table"
proof -
  from assms obtain tgts srcs tgt where
    "(tgts, srcs) \<in> set cast_pairs" "tgt \<in> set tgts" "arow_names r = (''cast'', tgt)"
    by (auto simp: a_cast_def)
  with cast_targets have "tgt \<in> set all_types" "arow_names r = (''cast'', tgt)"
    by auto
  then show ?thesis
    unfolding name_table_def set_append Un_iff by (intro disjI2 disjI1) simp
qed

lemma names_print: "r \<in> set a_print \<Longrightarrow> arow_names r = (''print'', ''print'')"
  by (auto simp: a_print_def)

lemma names_comparison:
  "r \<in> set a_comparison \<Longrightarrow>
   arow_names r \<in> set [(''lt'', ''<''), (''gt'', ''>''), (''eq'', ''==''), (''ne'', ''!=''),
                  (''lte'', ''<=''), (''gte'', ''>='')]"
  by (auto simp: a_comparison_def)

lemma names_time:
  "r \<in> set a_time_arith \<Longrightarrow>
   arow_names r \<in> set [(''add'', ''+''), (''sub'', ''-''), (''mul'', ''*''), (''div'', ''/''),
                  (''bar'', ''bar'')]"
  by (auto simp: a_time_arith_def)

lemma names_unit:
  "r \<in> set a_unit \<Longrightarrow>
   arow_names r \<in> set [(''unit_ns'', ''suffixns''), (''unit_us'', ''suffixus''),
      (''unit_ms'', ''suffixms''), (''unit_s'', ''suffixs''), (''unit_m'', ''suffixm''),
      (''unit_h'', ''suffixh''), (''unit_d'', ''suffixd'')]"
  by (auto simp: a_unit_def)

lemma names_wrapper:
  "r \<in> set a_wrapper \<Longrightarrow>
   arow_names r \<in> set [(''len'', ''len''), (''count'', ''count''), (''range'', ''range'')]"
  by (auto simp: a_wrapper_def)

lemma names_manual:
  "r \<in> set a_manual \<Longrightarrow> arow_names r \<in> set [(''del'', []), (''idx'', [])]"
  by (auto simp: a_manual_def)

lemma in_set_name_tableI:
  "p \<in> set xs \<Longrightarrow> set xs \<subseteq> set operator_names \<Longrightarrow> p \<in> set name_table"
  unfolding name_table_def by auto

lemma a_opcode_names:
  assumes "r \<in> set a_opcodes"
  shows "arow_names r \<in> set name_table"
proof -
  from assms [unfolded in_a_opcodes]
  show ?thesis
  proof (elim disjE)
    assume "r \<in> set a_literal" then show ?thesis by (rule names_literal)
  next
    assume "r = a_row ''now'' ''now'' ([Scalar ''Timestamp''], NoRet) 1"
    then show ?thesis by (simp add: name_table_def)
  next
    assume "r \<in> set a_cast" then show ?thesis by (rule names_cast)
  next
    assume "r \<in> set a_print"
    from names_print [OF this] show ?thesis by (simp add: name_table_def operator_names_def)
  next
    assume "r \<in> set a_comparison"
    from names_comparison [OF this] show ?thesis
      by (rule in_set_name_tableI) (simp add: operator_names_def)
  next
    assume "r \<in> set a_time_arith"
    from names_time [OF this] show ?thesis
      by (rule in_set_name_tableI) (simp add: operator_names_def)
  next
    assume "r \<in> set a_unit"
    from names_unit [OF this] show ?thesis
      by (rule in_set_name_tableI) (simp add: operator_names_def)
  next
    assume "r \<in> set a_wrapper"
    from names_wrapper [OF this] show ?thesis
      by (rule in_set_name_tableI) (simp add: operator_names_def)
  next
    assume "r \<in> set a_manual"
    from names_manual [OF this] show ?thesis
      by (rule in_set_name_tableI) (simp add: operator_names_def)
  qed (drule names_binary names_unary names_reduce,
       erule in_set_name_tableI, simp add: operator_names_def)+
qed

lemma opcode_names:
  assumes "o' \<in> set opcodes"
  shows "(vvm_name o', emp_name o') \<in> set name_table"
proof -
  from assms obtain r where r: "r \<in> set a_opcodes" "o' = render_row r"
    unfolding opcodes_render by auto
  obtain v k ps rt n where "r = (v, k, ps, rt, n)" by (cases r)
  with r(2) have "(vvm_name o', emp_name o') = arow_names r"
    by (simp add: arow_names_def vvm_name_def emp_name_def)
  with a_opcode_names [OF r(1)] show ?thesis by simp
qed

section \<open>The trait assigner\<close>

lemmas trait_defs =
  assign_traits_def trait_overrides_def all_traits_def pure_def transform_def
  linear_def autostream_def none_def ra_traits_def io_traits_def ca_traits_def

lemma assign_traits_code:
  "assign_traits key =
     (if key = ''now'' then 6 else if key = ''range'' then 15
      else if key = ''sort'' then 3 else if key = ''multidx'' then 3
      else if key = ''idx'' then 3 else if key = ''unique'' then 5
      else if key = ''print'' then 0 else if key = ''store'' then 0
      else if key = ''load'' then 8 else 7)"
  by (simp add: trait_defs)

lemma traits_all_types: "list_all (\<lambda>t. assign_traits t = 7) all_types"
  by (simp add: type_lists assign_traits_code)

lemma traits_cast_target: "t \<in> set all_types \<Longrightarrow> assign_traits t = assign_traits ''cast''"
  using traits_all_types by (simp add: list_all_iff assign_traits_code)

lemma traits_operator_list:
  "list_all (\<lambda>(k, v). v \<noteq> [] \<longrightarrow> assign_traits v = assign_traits k) operator_names"
  by (simp add: operator_names_def assign_traits_code)

lemma traits_operator_names:
  "(k, v) \<in> set operator_names \<Longrightarrow> v \<noteq> [] \<Longrightarrow> assign_traits v = assign_traits k"
  using traits_operator_list by (auto simp: list_all_iff)

lemma traits_by_vvm_name:
  assumes "o' \<in> set opcodes" and "emp_name o' \<noteq> []"
  shows "assign_traits (emp_name o') = assign_traits (vvm_name o')"
proof -
  from opcode_names [OF assms(1)]
  consider "emp_name o' = []"
    | "vvm_name o' = ''now''" "emp_name o' = ''now''"
    | "vvm_name o' = ''cast''" "emp_name o' \<in> set all_types"
    | "(vvm_name o', emp_name o') \<in> set operator_names"
    unfolding name_table_def by auto
  then show ?thesis
  proof cases
    case 1
    with assms(2) show ?thesis by simp
  next
    case 2
    then show ?thesis by simp
  next
    case 3
    then show ?thesis by (simp add: traits_cast_target)
  next
    case 4
    from traits_operator_names [OF this assms(2)] show ?thesis .
  qed
qed

lemma in_builtin_traits:
  "(o', t) \<in> set builtin_traits \<longleftrightarrow>
     o' \<in> set opcodes \<and> emp_name o' \<noteq> [] \<and> t = assign_traits (emp_name o')"
  by (auto simp: builtin_traits_def)

lemma traits_default:
  "key \<notin> set (map fst trait_overrides) \<Longrightarrow> assign_traits key = all_traits"
proof -
  assume "key \<notin> set (map fst trait_overrides)"
  then have "map_of (rev trait_overrides) key = None"
    by (simp add: map_of_eq_None_iff)
  then show ?thesis by (simp add: assign_traits_def)
qed

text \<open>
  C7. The assignment is a total function of a name: the override of the name if the
  table of overrides has one, else pure, transform and linear. BuiltinsWriter looks the
  Empirical name up, and for every row that it emits this gives the traits of the row's
  canonical name. The name load gets autostream only, store and print get no trait, and
  range gets the default set and autostream.
\<close>

theorem trait_assignment:
  "(\<forall>(o', t) \<in> set builtin_traits. t = assign_traits (vvm_name o')) \<and>
   (\<forall>key. key \<notin> set (map fst trait_overrides) \<longrightarrow>
      traits_of (assign_traits key) = [Pure, Transform, Linear]) \<and>
   traits_of (assign_traits ''load'') = [Autostream] \<and>
   traits_of (assign_traits ''store'') = [] \<and>
   traits_of (assign_traits ''print'') = [] \<and>
   traits_of (assign_traits ''range'') = [Pure, Transform, Linear, Autostream]"
proof (intro conjI ballI allI impI)
  fix x assume x: "x \<in> set builtin_traits"
  obtain o' t where xp: "x = (o', t)" by (cases x)
  from x show "case x of (o', t) \<Rightarrow> t = assign_traits (vvm_name o')"
    unfolding xp by (simp add: in_builtin_traits traits_by_vvm_name)
next
  fix key assume "key \<notin> set (map fst trait_overrides)"
  from traits_default [OF this]
  show "traits_of (assign_traits key) = [Pure, Transform, Linear]"
    by (simp add: traits_of_def all_traits_def pure_def transform_def linear_def
        autostream_def)
qed (simp_all add: traits_of_def assign_traits_code pure_def transform_def linear_def
    autostream_def)

lemma now_row_emitted:
  "((''now'', ''now'', ''Timestamp'', 1), assign_traits ''now'') \<in> set builtin_traits"
  by (simp add: in_builtin_traits opcodes_def emp_name_def)

theorem trait_assignment_witness:
  "((''now'', ''now'', ''Timestamp'', 1), assign_traits ''now'') \<in> set builtin_traits \<and>
   assign_traits ''now'' = assign_traits (vvm_name (''now'', ''now'', ''Timestamp'', 1)) \<and>
   ''add'' \<notin> set (map fst trait_overrides) \<and>
   traits_of (assign_traits ''add'') = [Pure, Transform, Linear]"
proof -
  have k: "''add'' \<notin> set (map fst trait_overrides)"
    by (simp add: trait_overrides_def)
  from trait_assignment now_row_emitted k show ?thesis
    by (auto simp: vvm_name_def)
qed

section \<open>Splitting\<close>

declare split_from.simps [simp del]
declare get_vvm_type.simps [simp del]

lemma split_from_Nil: "split_from sep acc [] = [acc]"
  by (simp add: split_from.simps)

lemma split_from_skip:
  "sep \<noteq> [] \<Longrightarrow> hd sep \<notin> set x \<Longrightarrow>
   split_from sep acc (x @ rest) = split_from sep (acc @ x) rest"
proof (induction x arbitrary: acc)
  case Nil
  then show ?case by simp
next
  case (Cons a x)
  from Cons.prems obtain h sep' where sep: "sep = h # sep'" "a \<noteq> h"
    by (cases sep) auto
  have "split_from sep acc ((a # x) @ rest) = split_from sep (acc @ [a]) (x @ rest)"
    by (subst split_from.simps) (simp add: sep)
  also have "\<dots> = split_from sep ((acc @ [a]) @ x) rest"
    using Cons.prems by (intro Cons.IH) simp_all
  finally show ?case by simp
qed

lemma split_from_sep:
  "sep \<noteq> [] \<Longrightarrow> split_from sep acc (sep @ rest) = acc # split_from sep [] rest"
  by (subst split_from.simps) simp

lemma split_from_piece:
  "sep \<noteq> [] \<Longrightarrow> hd sep \<notin> set x \<Longrightarrow> split_from sep acc x = [acc @ x]"
  using split_from_skip [of sep x acc "[]"] by (simp add: split_from_Nil)

lemma split_from_join:
  "sep \<noteq> [] \<Longrightarrow> xs \<noteq> [] \<Longrightarrow> \<forall>x\<in>set xs. hd sep \<notin> set x \<Longrightarrow>
   split_from sep acc (join sep xs) = (acc @ hd xs) # tl xs"
proof (induction sep xs arbitrary: acc rule: join.induct)
  case (1 sep)
  then show ?case by simp
next
  case (2 sep x)
  then show ?case by (simp add: split_from_piece)
next
  case (3 sep x y ys)
  have "split_from sep acc (join sep (x # y # ys)) =
        split_from sep (acc @ x) (sep @ join sep (y # ys))"
    using "3.prems" by (simp add: split_from_skip)
  also have "\<dots> = (acc @ x) # split_from sep [] (join sep (y # ys))"
    using "3.prems" by (simp add: split_from_sep)
  also have "split_from sep [] (join sep (y # ys)) = y # ys"
    using "3.prems" "3.IH" [of "[]"] by simp
  finally show ?case by simp
qed

lemma py_split_join:
  "sep \<noteq> [] \<Longrightarrow> xs \<noteq> [] \<Longrightarrow> \<forall>x\<in>set xs. hd sep \<notin> set x \<Longrightarrow>
   py_split sep (join sep xs) = xs"
  by (simp add: py_split_def split_from_join)

section \<open>Registered types\<close>

lemma registered_plain: "registered t \<Longrightarrow> plain t"
  by (auto simp: registered_def type_lists plain_def)

lemma registered_tag:
  "registered t \<Longrightarrow> \<exists>tag. vvm_types_dict t = Some tag \<and> CHR ''_'' \<notin> set tag \<and> tag \<noteq> []"
  by (auto simp: registered_def type_lists vvm_types_dict_def types_def)

lemma plain_chars:
  assumes "plain t"
  shows "t \<noteq> []" "CHR ''-'' \<notin> set t" "CHR '','' \<notin> set t" "CHR ''('' \<notin> set t"
    "CHR ''['' \<notin> set t" "CHR '')'' \<notin> set t" "CHR '']'' \<notin> set t" "CHR ''>'' \<notin> set t"
  using assms by (auto simp: plain_def list_all_iff)

lemma plain_hd: "plain t \<Longrightarrow> hd t \<noteq> CHR ''['' \<and> hd t \<noteq> CHR ''(''"
  using plain_chars [of t] by (cases t) auto

lemma get_vvm_type_scalar:
  assumes "registered t"
  shows "get_vvm_type t sfx = Inr (the (vvm_types_dict t) @ sfx)"
proof -
  from registered_tag [OF assms] obtain tag where "vvm_types_dict t = Some tag" by blast
  then show ?thesis
    using plain_hd [OF registered_plain [OF assms]] plain_chars(1) [OF registered_plain [OF assms]]
    by (subst get_vvm_type.simps) simp
qed

lemma get_vvm_type_array:
  assumes "registered t"
  shows "get_vvm_type (CHR ''['' # t @ '']'') sfx = Inr (the (vvm_types_dict t) @ ''v'')"
proof -
  have "get_vvm_type (CHR ''['' # t @ '']'') sfx = get_vvm_type t ''v''"
    by (subst get_vvm_type.simps) (simp add: butlast_append)
  then show ?thesis by (simp add: get_vvm_type_scalar [OF assms])
qed

lemma get_vvm_type_render:
  "registered (type_name p) \<Longrightarrow> get_vvm_type (render_type p) ''s'' = Inr (type_suffix p)"
  by (cases p) (simp_all add: get_vvm_type_scalar get_vvm_type_array)

lemma render_type_chars:
  assumes "registered (type_name p)"
  shows "render_type p \<noteq> []" "CHR ''-'' \<notin> set (render_type p)"
    "CHR '','' \<notin> set (render_type p)" "hd (render_type p) \<noteq> CHR ''(''"
  using plain_chars [OF registered_plain [OF assms]] plain_hd [OF registered_plain [OF assms]]
  by (cases p; simp)+

lemma suffix_loop_render:
  "list_all (\<lambda>p. registered (type_name p)) ps \<Longrightarrow>
   suffix_loop acc (map render_type ps) = Inr (acc @ ident_suffix ps)"
proof (induction ps arbitrary: acc)
  case Nil
  then show ?case by (simp add: ident_suffix_def)
next
  case (Cons p ps)
  then show ?case
    by (simp add: get_vvm_type_render bind_err_def ident_suffix_def)
qed


section \<open>get_opcode on rendered signatures\<close>

lemma set_join: "set (join sep xs) \<subseteq> set sep \<union> \<Union> (set ` set xs)"
  by (induction sep xs rule: join.induct) auto

lemma join_render_no_dash:
  assumes "list_all (\<lambda>p. registered (type_name p)) ps"
  shows "CHR ''-'' \<notin> set (join '','' (map render_type ps))"
proof -
  have "\<forall>x\<in>set (map render_type ps). CHR ''-'' \<notin> set x"
    using assms render_type_chars(2) by (auto simp: list_all_iff)
  with set_join [of "'',''" "map render_type ps"] show ?thesis by auto
qed

lemma render_params_chars:
  assumes "list_all (\<lambda>p. registered (type_name p)) ps" and "ps \<noteq> []"
  shows "render_params ps \<noteq> []" "CHR ''-'' \<notin> set (render_params ps)"
proof -
  show "render_params ps \<noteq> []"
    using assms render_type_chars(1) by (cases ps rule: render_params.cases) auto
  show "CHR ''-'' \<notin> set (render_params ps)"
  proof (cases ps rule: render_params.cases)
    case 1
    with assms show ?thesis by simp
  next
    case (2 p)
    with assms render_type_chars(2) show ?thesis by simp
  next
    case (3 p q qs)
    with join_render_no_dash [OF assms(1)] show ?thesis by simp
  qed
qed

lemma py_split_arrow_none:
  "CHR ''-'' \<notin> set a \<Longrightarrow> py_split ''->'' a = [a]"
  by (simp add: py_split_def split_from_piece)

lemma py_split_arrow_some:
  assumes "CHR ''-'' \<notin> set a" and "CHR ''-'' \<notin> set b"
  shows "py_split ''->'' (a @ ''->'' @ b) = [a, b]"
proof -
  have "split_from ''->'' [] (a @ ''->'' @ b) = split_from ''->'' a (''->'' @ b)"
    using split_from_skip [of "''->''" a "[]" "''->'' @ b"] assms(1) by simp
  also have "\<dots> = a # split_from ''->'' [] b"
    by (rule split_from_sep) simp
  also have "split_from ''->'' [] b = [b]"
    using split_from_piece [of "''->''" b "[]"] assms(2) by simp
  finally show ?thesis by (simp add: py_split_def)
qed

lemma py_split_render_sig:
  assumes "list_all (\<lambda>p. registered (type_name p)) ps" and "ps \<noteq> []" and "wf_ret r"
  shows "py_split ''->'' (render_sig ps r) =
           (case r of NoRet \<Rightarrow> [render_params ps]
                    | UnitRet \<Rightarrow> [render_params ps, ''()'']
                    | Ret t \<Rightarrow> [render_params ps, render_type t])"
proof (cases r)
  case NoRet
  then show ?thesis
    using render_params_chars(2) [OF assms(1,2)]
    by (simp add: render_sig_def py_split_arrow_none)
next
  case UnitRet
  have "py_split ''->'' (render_params ps @ ''->'' @ ''()'') = [render_params ps, ''()'']"
    by (rule py_split_arrow_some) (use render_params_chars(2) [OF assms(1,2)] in simp_all)
  with UnitRet show ?thesis by (simp add: render_sig_def)
next
  case (Ret t)
  with assms(3) have "CHR ''-'' \<notin> set (render_type t)"
    using render_type_chars(2) by simp
  with render_params_chars(2) [OF assms(1,2)]
  have "py_split ''->'' (render_params ps @ ''->'' @ render_type t) =
          [render_params ps, render_type t]"
    by (rule py_split_arrow_some)
  with Ret show ?thesis by (simp add: render_sig_def)
qed

text \<open>The suffix that get_opcode computes from the parameter text.\<close>

lemma param_suffix_render:
  assumes "list_all (\<lambda>p. registered (type_name p)) ps" and "ps \<noteq> []"
  shows "(if render_params ps = [] then Inl IndexError
          else if hd (render_params ps) = CHR ''('' \<and> last (render_params ps) = CHR '')''
               then suffix_loop [] (py_split '','' (butlast (tl (render_params ps))))
          else bind_err (get_vvm_type (render_params ps) ''s'') (\<lambda>v. Inr (''_'' @ v)))
         = Inr (ident_suffix ps)"
proof (cases ps rule: render_params.cases)
  case 1
  with assms show ?thesis by simp
next
  case (2 p)
  with assms render_type_chars [of p] show ?thesis
    by (simp add: get_vvm_type_render bind_err_def ident_suffix_def)
next
  case (3 p q qs)
  have commas: "\<forall>x\<in>set (map render_type ps). hd '','' \<notin> set x"
    using assms(1) render_type_chars(3) by (auto simp: list_all_iff)
  have "py_split '','' (join '','' (map render_type ps)) = map render_type ps"
    by (rule py_split_join) (use commas assms(2) in simp_all)
  moreover have "butlast (tl (render_params ps)) = join '','' (map render_type ps)"
    using 3 by (simp add: butlast_append)
  moreover have "hd (render_params ps) = CHR ''('' \<and> last (render_params ps) = CHR '')''"
    using 3 by simp
  moreover have "render_params ps \<noteq> []" using 3 by simp
  ultimately show ?thesis
    using suffix_loop_render [OF assms(1), of "[]"] by simp
qed

lemma list_hd_case: "hd (case r of NoRet \<Rightarrow> [a] | UnitRet \<Rightarrow> [a, b] | Ret t \<Rightarrow> [a, c t]) = a"
  by (cases r) simp_all

lemma get_opcode_render:
  assumes "list_all (\<lambda>p. registered (type_name p)) ps" and "ps \<noteq> []" and "wf_ret r"
    and "k \<noteq> ''cast''"
  shows "get_opcode k (render_sig ps r) = Inr (k @ ident_suffix ps)"
proof -
  have ne: "render_sig ps r \<noteq> []"
    using render_params_chars(1) [OF assms(1,2)] by (simp add: render_sig_def)
  show ?thesis
    unfolding get_opcode_def Let_def py_split_render_sig [OF assms(1-3)] list_hd_case
      param_suffix_render [OF assms(1,2)]
    using ne assms(4) by (simp add: bind_err_def)
qed

lemma get_opcode_render_cast:
  assumes "registered (type_name a)" and "registered (type_name b)"
  shows "get_opcode ''cast'' (render_sig [a] (Ret b)) =
         Inr (''cast'' @ ident_suffix [a] @ ''_'' @ type_suffix b)"
proof -
  have ps: "list_all (\<lambda>p. registered (type_name p)) [a]" "[a] \<noteq> []" "wf_ret (Ret b)"
    using assms by simp_all
  have ne: "render_sig [a] (Ret b) \<noteq> []"
    using render_params_chars(1) [OF ps(1,2)] by (simp add: render_sig_def)
  show ?thesis
    unfolding get_opcode_def Let_def py_split_render_sig [OF ps] list_hd_case
      param_suffix_render [OF ps(1,2)]
    using ne by (simp add: bind_err_def get_vvm_type_render [OF assms(2)])
qed

lemma opcode_id_render:
  assumes "wf_row r"
  shows "opcode_id (render_row r) = Inr (row_ident r)"
proof -
  obtain v k ps rt n where r: "r = (v, k, ps, rt, n)" by (cases r)
  show ?thesis
  proof (cases "ps = []")
    case True
    with assms r show ?thesis
      by (simp add: opcode_id_def vvm_name_def type_sig_def render_sig_def get_opcode_def
          ident_suffix_def)
  next
    case False
    show ?thesis
    proof (cases "k = ''cast''")
      case True
      with assms r obtain a b where ab: "ps = [a]" "rt = Ret b"
        by (cases ps; cases rt) auto
      with assms r have "registered (type_name a)" "registered (type_name b)" by simp_all
      from get_opcode_render_cast [OF this] True ab r show ?thesis
        by (simp add: opcode_id_def vvm_name_def type_sig_def)
    next
      case nc: False
      from assms r have "list_all (\<lambda>p. registered (type_name p)) ps" "wf_ret rt" by simp_all
      from get_opcode_render [OF this(1) False this(2) nc] nc r show ?thesis
        by (cases rt) (simp_all add: opcode_id_def vvm_name_def type_sig_def)
    qed
  qed
qed

section \<open>Every row of the table is well formed\<close>

lemma wf_binary:
  assumes "\<forall>t\<in>set ts. registered t" and "\<forall>(k, v)\<in>set ops. k \<noteq> ''cast''"
  shows "\<forall>r\<in>set (a_same_type_binary ops ts). wf_row r"
  using assms by (auto simp: a_same_type_binary_def a_row_def binary_shapes_def)

lemma wf_unary:
  assumes "\<forall>t\<in>set ts. registered t" and "\<forall>(k, v)\<in>set ops. k \<noteq> ''cast''"
  shows "\<forall>r\<in>set (a_same_type_unary ops ts). wf_row r"
  using assms by (auto simp: a_same_type_unary_def a_row_def unary_shapes_def)

lemma wf_reduce:
  assumes "\<forall>t\<in>set ts. registered t" and "\<forall>(k, v)\<in>set ops. k \<noteq> ''cast''"
  shows "\<forall>r\<in>set (a_reduce ops ts). wf_row r"
  using assms by (auto simp: a_reduce_def a_row_def)

lemma registered_all: "\<forall>t\<in>set all_types. registered t"
  by (simp add: registered_def)

lemma registered_sub:
  "\<forall>t\<in>set bool_types. registered t" "\<forall>t\<in>set integer_types. registered t"
  "\<forall>t\<in>set arithmetic_types. registered t" "\<forall>t\<in>set float_types. registered t"
  "\<forall>t\<in>set string_types. registered t" "\<forall>t\<in>set time_ish_types. registered t"
  "\<forall>t\<in>set timedelta_types. registered t" "\<forall>t\<in>set date_types. registered t"
  "\<forall>t\<in>set time_types. registered t"
  "\<forall>t\<in>set (time_ish_types @ timedelta_types). registered t"
  by (simp_all add: registered_def type_lists)

lemma registered_names:
  "registered ''Bool''" "registered ''Timedelta''" "registered ''Timestamp''"
  "registered ''Int64''"
  by (simp_all add: registered_def type_lists)

lemma literal_not_cast: "o' \<in> set literal_opcodes \<Longrightarrow> vvm_name o' \<noteq> ''cast''"
  by (auto simp: literal_opcodes_def vvm_name_def)

lemma wf_literal: "\<forall>r\<in>set a_literal. wf_row r"
  by (auto simp: a_literal_def a_row_def literal_not_cast)

lemma cast_sources: "(tgts, srcs) \<in> set cast_pairs \<Longrightarrow> set srcs \<subseteq> set all_types"
  by (auto simp: cast_pairs_def type_lists)

lemma wf_cast: "\<forall>r\<in>set a_cast. wf_row r"
proof
  fix r assume "r \<in> set a_cast"
  then obtain tgts srcs tgt src sh where
    m: "(tgts, srcs) \<in> set cast_pairs" "tgt \<in> set tgts" "src \<in> set srcs"
      "sh \<in> set unary_shapes" "r = a_row tgt ''cast'' (sh src tgt) 2"
    by (auto simp: a_cast_def)
  from cast_targets [OF m(1)] cast_sources [OF m(1)] m(2,3)
  have "registered tgt" "registered src"
    by (auto simp: registered_def)
  with m(4,5) show "wf_row r"
    by (auto simp: unary_shapes_def a_row_def)
qed

lemma wf_print: "\<forall>r\<in>set a_print. wf_row r"
  using registered_all by (auto simp: a_print_def a_row_def)

lemma wf_comparison: "\<forall>r\<in>set a_comparison. wf_row r"
  using registered_all registered_names
  by (auto simp: a_comparison_def a_row_def binary_shapes_def)

lemma wf_binary_two:
  assumes "\<forall>t1\<in>set ts1. \<forall>t2\<in>set ts2.
             registered t1 \<and> registered t2 \<and> registered (f t1 t2)"
    and "\<forall>(k, v)\<in>set ops. k \<noteq> ''cast''"
  shows "\<forall>r\<in>set [a_row v k (sh t1 t2 (f t1 t2)) 3.
            (k, v) \<leftarrow> ops, sh \<leftarrow> binary_shapes, t1 \<leftarrow> ts1, t2 \<leftarrow> ts2]. wf_row r"
  using assms by (auto simp: a_row_def binary_shapes_def)

lemma wf_binary_one:
  assumes "\<forall>t\<in>set ts. registered t" and "registered c"
    and "\<forall>(k, v)\<in>set ops. k \<noteq> ''cast''"
  shows "\<forall>r\<in>set [a_row v k (sh t t c) 3.
            (k, v) \<leftarrow> ops, sh \<leftarrow> binary_shapes, t \<leftarrow> ts]. wf_row r"
  using assms by (auto simp: a_row_def binary_shapes_def)

lemma wf_time: "\<forall>r\<in>set a_time_arith. wf_row r"
  unfolding a_time_arith_def set_append ball_Un
proof (intro conjI)
  show "\<forall>r\<in>set [a_row v k (sh t t ''Timedelta'') 3.
            (k, v) \<leftarrow> [(''sub'', ''-'')], sh \<leftarrow> binary_shapes, t \<leftarrow> time_ish_types]. wf_row r"
    by (rule wf_binary_one) (simp_all add: registered_sub registered_names)
  show "\<forall>r\<in>set [a_row v k (sh t1 t2 t1) 3.
            (k, v) \<leftarrow> [(''add'', ''+''), (''sub'', ''-''), (''mul'', ''*''), (''div'', ''/''),
                  (''bar'', ''bar'')],
            sh \<leftarrow> binary_shapes,
            t1 \<leftarrow> time_ish_types @ timedelta_types, t2 \<leftarrow> timedelta_types]. wf_row r"
    by (rule wf_binary_two) (use registered_sub in simp_all)
  show "\<forall>r\<in>set [a_row v k (sh t1 t2 t2) 3.
            (k, v) \<leftarrow> [(''add'', ''+''), (''mul'', ''*'')],
            sh \<leftarrow> binary_shapes,
            t1 \<leftarrow> timedelta_types, t2 \<leftarrow> time_ish_types]. wf_row r"
    by (rule wf_binary_two) (use registered_sub in simp_all)
  show "\<forall>r\<in>set [a_row v k (sh t1 t2 ''Timestamp'') 3.
            (k, v) \<leftarrow> [(''add'', ''+'')], sh \<leftarrow> binary_shapes,
            t1 \<leftarrow> date_types, t2 \<leftarrow> time_types]. wf_row r"
    by (rule wf_binary_two) (use registered_sub registered_names in simp_all)
qed

lemma wf_unit: "\<forall>r\<in>set a_unit. wf_row r"
  using registered_names by (auto simp: a_unit_def a_row_def)

lemma wf_wrapper: "\<forall>r\<in>set a_wrapper. wf_row r"
  using registered_all registered_sub registered_names
  by (auto simp: a_wrapper_def a_row_def)

lemma wf_manual: "\<forall>r\<in>set a_manual. wf_row r"
  using registered_all registered_names
  by (auto simp: a_manual_def a_row_def)

lemma wf_a_opcodes: "\<forall>r\<in>set a_opcodes. wf_row r"
  unfolding a_opcodes_def set_append ball_Un
  using registered_names
  by (intro conjI wf_literal wf_cast wf_print wf_comparison wf_time wf_unit wf_wrapper
      wf_manual wf_binary wf_unary wf_reduce registered_sub)
     (simp_all add: a_row_def)

lemma opcode_ids: "map opcode_id opcodes = map (\<lambda>r. Inr (row_ident r)) a_opcodes"
  unfolding opcodes_render using wf_a_opcodes by (simp add: opcode_id_render)

section \<open>The round trip\<close>

lemma registered_tag_inverse:
  "registered t \<Longrightarrow> tag_types (the (vvm_types_dict t)) = Some t"
  by (auto simp: registered_def type_lists vvm_types_dict_def tag_types_def types_def)

lemma decode_type_suffix:
  assumes "registered (type_name p)"
  shows "decode_suffix (type_suffix p) = Some (render_type p)"
  using registered_tag_inverse [OF assms]
  by (cases p) (simp_all add: decode_suffix_def)

lemma type_suffix_no_underscore:
  assumes "registered (type_name p)"
  shows "CHR ''_'' \<notin> set (type_suffix p)"
  using registered_tag [OF assms] by (cases p) auto

lemma ident_suffix_join:
  "ps \<noteq> [] \<Longrightarrow> ident_suffix ps = ''_'' @ join ''_'' (map type_suffix ps)"
proof (induction ps rule: induct_list012)
  case 1
  then show ?case by simp
next
  case (2 p)
  then show ?case by (simp add: ident_suffix_def)
next
  case (3 p q qs)
  then show ?case by (simp add: ident_suffix_def)
qed

lemma those_map_Some: "those (map Some xs) = Some xs"
  by (induction xs) simp_all

lemma row_ident_types: "row_ident r = fst (snd r) @ ident_suffix (row_types r)"
proof -
  obtain v k ps rt n where r: "r = (v, k, ps, rt, n)" by (cases r)
  show ?thesis unfolding r by (cases rt) (simp_all add: ident_suffix_def)
qed

lemma decode_ident_suffix:
  assumes "list_all (\<lambda>p. registered (type_name p)) ps"
  shows "decode_opcode k (k @ ident_suffix ps) = Some (map render_type ps)"
proof (cases "ps = []")
  case True
  then show ?thesis by (simp add: decode_opcode_def ident_suffix_def)
next
  case False
  have under: "\<forall>x\<in>set (map type_suffix ps). hd ''_'' \<notin> set x"
    using assms type_suffix_no_underscore by (auto simp: list_all_iff)
  have split: "py_split ''_'' (join ''_'' (map type_suffix ps)) = map type_suffix ps"
    by (rule py_split_join) (use under False in simp_all)
  have "map (decode_suffix \<circ> type_suffix) ps = map Some (map render_type ps)"
    using assms decode_type_suffix by (auto simp: list_all_iff)
  then have dec: "those (map (decode_suffix \<circ> type_suffix) ps) = Some (map render_type ps)"
    by (simp only: those_map_Some)
  show ?thesis
    unfolding ident_suffix_join [OF False]
    by (simp add: decode_opcode_def split dec)
qed

lemma sig_params_render:
  assumes "list_all (\<lambda>p. registered (type_name p)) ps" and "wf_ret r"
    and "ps = [] \<longrightarrow> r = NoRet"
  shows "sig_params (render_sig ps r) = map render_type ps"
proof (cases ps rule: render_params.cases)
  case 1
  with assms show ?thesis by (simp add: sig_params_def render_sig_def)
next
  case (2 p)
  then have ne: "ps \<noteq> []" by simp
  have "render_sig ps r \<noteq> []"
    using render_params_chars(1) [OF assms(1) ne] by (simp add: render_sig_def)
  then show ?thesis
    unfolding sig_params_def Let_def py_split_render_sig [OF assms(1) ne assms(2)] list_hd_case
    using 2 assms(1) render_type_chars [of p] by simp
next
  case (3 p q qs)
  then have ne: "ps \<noteq> []" by simp
  have commas: "\<forall>x\<in>set (map render_type ps). hd '','' \<notin> set x"
    using assms(1) render_type_chars(3) by (auto simp: list_all_iff)
  have sp: "py_split '','' (join '','' (map render_type ps)) = map render_type ps"
    by (rule py_split_join) (use commas ne in simp_all)
  have bl: "butlast (tl (render_params ps)) = join '','' (map render_type ps)"
    using 3 by (simp add: butlast_append)
  have "render_sig ps r \<noteq> []"
    using render_params_chars(1) [OF assms(1) ne] by (simp add: render_sig_def)
  then show ?thesis
    unfolding sig_params_def Let_def py_split_render_sig [OF assms(1) ne assms(2)] list_hd_case
      bl sp
    using 3 by simp
qed

lemma sig_result_render:
  assumes "list_all (\<lambda>p. registered (type_name p)) ps" and "ps \<noteq> []"
    and "registered (type_name t)"
  shows "sig_result (render_sig ps (Ret t)) = Some (render_type t)"
  unfolding sig_result_def using py_split_render_sig [OF assms(1,2), of "Ret t"] assms(3)
  by simp

lemma expected_types_render:
  assumes "wf_row r"
  shows "expected_types (render_row r) = map render_type (row_types r)"
proof -
  obtain v k ps rt n where r: "r = (v, k, ps, rt, n)" by (cases r)
  from assms r have wf: "list_all (\<lambda>p. registered (type_name p)) ps" "wf_ret rt"
    "ps = [] \<longrightarrow> rt = NoRet" by simp_all
  note sp = sig_params_render [OF wf]
  show ?thesis
  proof (cases "k = ''cast''")
    case False
    with sp r show ?thesis
      by (cases rt) (simp_all add: expected_types_def vvm_name_def type_sig_def)
  next
    case True
    with assms r obtain a b where ab: "ps = [a]" "rt = Ret b"
      by (cases ps; cases rt) auto
    with assms r have "registered (type_name b)" by simp
    from sig_result_render [OF wf(1) _ this] ab sp True r show ?thesis
      by (simp add: expected_types_def vvm_name_def type_sig_def)
  qed
qed

lemma wf_row_types: "wf_row r \<Longrightarrow> list_all (\<lambda>p. registered (type_name p)) (row_types r)"
proof -
  assume w: "wf_row r"
  obtain v k ps rt n where r: "r = (v, k, ps, rt, n)" by (cases r)
  from w show ?thesis unfolding r by (cases rt) auto
qed

lemma roundtrip_row:
  assumes "wf_row r"
  shows "opcode_id (render_row r) = Inr (row_ident r) \<and>
         decode_opcode (vvm_name (render_row r)) (row_ident r)
           = Some (expected_types (render_row r))"
proof -
  obtain v k ps rt n where r: "r = (v, k, ps, rt, n)" by (cases r)
  have "decode_opcode k (k @ ident_suffix (row_types r)) = Some (map render_type (row_types r))"
    by (rule decode_ident_suffix [OF wf_row_types [OF assms]])
  then show ?thesis
    using opcode_id_render [OF assms] expected_types_render [OF assms] row_ident_types [of r]
    by (simp add: r vvm_name_def)
qed

text \<open>
  C3. For every row of the table get_opcode returns an identifier, and decoding the
  suffixes of that identifier through the type registry gives back the parameter types of
  the row's signature, in order, followed for a cast by its target type.
\<close>

theorem opcode_roundtrip:
  "\<forall>o'\<in>set opcodes.
     \<exists>ident. get_opcode (vvm_name o') (type_sig o') = Inr ident \<and>
             decode_opcode (vvm_name o') ident = Some (expected_types o')"
proof
  fix o' assume "o' \<in> set opcodes"
  then obtain r where r: "r \<in> set a_opcodes" "o' = render_row r"
    unfolding opcodes_render by auto
  from wf_a_opcodes r(1) have "wf_row r" by blast
  from roundtrip_row [OF this] r(2)
  show "\<exists>ident. get_opcode (vvm_name o') (type_sig o') = Inr ident \<and>
             decode_opcode (vvm_name o') ident = Some (expected_types o')"
    by (auto simp: opcode_id_def)
qed

lemma roundtrip_example:
  "get_opcode ''cast'' ''[String]->[Int64]'' = Inr ''cast_Sv_i64v'' \<and>
   decode_opcode ''cast'' ''cast_Sv_i64v'' = Some [''[String]'', ''[Int64]''] \<and>
   expected_types (''Int64'', ''cast'', ''[String]->[Int64]'', 2) = [''[String]'', ''[Int64]'']"
  by code_simp

lemma cast_row_in_table: "(''Int64'', ''cast'', ''[String]->[Int64]'', 2) \<in> set opcodes"
proof -
  have "(''Int64'', ''cast'', ''[String]->[Int64]'', 2) \<in> set cast_opcodes"
    unfolding cast_opcodes_def cast_pairs_def
    by (simp add: type_lists)
  then show ?thesis by (simp add: opcodes_def)
qed

theorem opcode_roundtrip_witness:
  "(''Int64'', ''cast'', ''[String]->[Int64]'', 2) \<in> set opcodes \<and>
   (\<exists>ident. get_opcode ''cast'' ''[String]->[Int64]'' = Inr ident \<and>
            decode_opcode ''cast'' ident = Some [''[String]'', ''[Int64]''])"
proof -
  from opcode_roundtrip cast_row_in_table
  have "\<exists>ident. get_opcode (vvm_name (''Int64'', ''cast'', ''[String]->[Int64]'', 2))
                  (type_sig (''Int64'', ''cast'', ''[String]->[Int64]'', 2)) = Inr ident \<and>
          decode_opcode (vvm_name (''Int64'', ''cast'', ''[String]->[Int64]'', 2)) ident
            = Some (expected_types (''Int64'', ''cast'', ''[String]->[Int64]'', 2))"
    by blast
  with roundtrip_example cast_row_in_table show ?thesis
    by (simp add: vvm_name_def type_sig_def)
qed

section \<open>Equal identifiers come from equal names and types\<close>

lemma good_name_join:
  "good_name k \<Longrightarrow> k = join ''_'' (name_pieces k) \<and>
     (\<forall>x\<in>set (name_pieces k). CHR ''_'' \<notin> set x)"
proof -
  assume g: "good_name k"
  show ?thesis
  proof (cases "CHR ''_'' \<notin> set k")
    case True
    then show ?thesis by (simp add: name_pieces_def)
  next
    case False
    with g have u: "take 5 k = ''unit_''" "CHR ''_'' \<notin> set (drop 5 k)"
      by (auto simp: good_name_def)
    have "k = take 5 k @ drop 5 k" by simp
    with u(1) have "k = ''unit_'' @ drop 5 k" by simp
    then have "k = join ''_'' [''unit'', drop 5 k]" by simp
    with False u(2) show ?thesis by (simp add: name_pieces_def)
  qed
qed

lemma join_append_one:
  "xs \<noteq> [] \<Longrightarrow> join sep (xs @ [y]) = join sep xs @ sep @ y"
  by (induction sep xs rule: join.induct) simp_all

lemma join_append_suffixes:
  "xs \<noteq> [] \<Longrightarrow> join ''_'' (xs @ map type_suffix ps) = join ''_'' xs @ ident_suffix ps"
proof (induction ps rule: rev_induct)
  case Nil
  then show ?case by (simp add: ident_suffix_def)
next
  case (snoc p ps)
  have "join ''_'' (xs @ map type_suffix (ps @ [p])) =
        join ''_'' ((xs @ map type_suffix ps) @ [type_suffix p])"
    by simp
  also have "\<dots> = join ''_'' (xs @ map type_suffix ps) @ ''_'' @ type_suffix p"
    using snoc.prems by (intro join_append_one) simp
  finally show ?case
    using snoc by (simp add: ident_suffix_def)
qed

lemma name_pieces_nonempty: "name_pieces k \<noteq> []"
  by (simp add: name_pieces_def)

lemma row_ident_pieces:
  assumes "good_name (fst (snd r))"
  shows "row_ident r = join ''_'' (row_pieces r)"
  using good_name_join [OF assms] join_append_suffixes [OF name_pieces_nonempty]
  by (simp add: row_ident_types row_pieces_def)

lemma row_pieces_split:
  assumes "good_name (fst (snd r))" and "wf_row r"
  shows "py_split ''_'' (row_ident r) = row_pieces r"
proof -
  have "\<forall>x\<in>set (row_pieces r). hd ''_'' \<notin> set x"
    using good_name_join [OF assms(1)] wf_row_types [OF assms(2)] type_suffix_no_underscore
    by (auto simp: row_pieces_def list_all_iff)
  then show ?thesis
    unfolding row_ident_pieces [OF assms(1)]
    by (intro py_split_join) (simp_all add: row_pieces_def name_pieces_nonempty)
qed

lemma render_type_inj:
  assumes "registered (type_name p)" and "registered (type_name q)"
    and "render_type p = render_type q"
  shows "p = q"
proof -
  note cp = plain_chars [OF registered_plain [OF assms(1)]]
    and cq = plain_chars [OF registered_plain [OF assms(2)]]
    and hp = plain_hd [OF registered_plain [OF assms(1)]]
    and hq = plain_hd [OF registered_plain [OF assms(2)]]
  show ?thesis
  proof (cases p; cases q)
    fix a b assume "p = Scalar a" "q = Scalar b"
    with assms(3) show ?thesis by simp
  next
    fix a b assume pq: "p = Scalar a" "q = Array b"
    with assms(3) have "a = CHR ''['' # b @ '']''" by simp
    with hp pq show ?thesis by simp
  next
    fix a b assume pq: "p = Array a" "q = Scalar b"
    with assms(3) have "b = CHR ''['' # a @ '']''" by simp
    with hq pq show ?thesis by simp
  next
    fix a b assume "p = Array a" "q = Array b"
    with assms(3) show ?thesis by simp
  qed
qed

lemma type_suffix_inj:
  assumes "registered (type_name p)" and "registered (type_name q)"
    and "type_suffix p = type_suffix q"
  shows "p = q"
proof -
  from assms(3) decode_type_suffix [OF assms(1)] decode_type_suffix [OF assms(2)]
  have "render_type p = render_type q" by simp
  with assms(1,2) show ?thesis by (rule render_type_inj)
qed

lemma map_type_suffix_inj:
  assumes "list_all (\<lambda>p. registered (type_name p)) ps"
    and "list_all (\<lambda>p. registered (type_name p)) qs"
    and "map type_suffix ps = map type_suffix qs"
  shows "ps = qs"
  using assms
proof (induction ps arbitrary: qs)
  case Nil
  then show ?case by simp
next
  case (Cons p ps)
  from Cons.prems(3) obtain q qs' where q: "qs = q # qs'" by (cases qs) auto
  from Cons.prems(1) have rp: "registered (type_name p)"
    and rps: "list_all (\<lambda>p. registered (type_name p)) ps" by simp_all
  from Cons.prems(2) q have rq: "registered (type_name q)"
    and rqs: "list_all (\<lambda>p. registered (type_name p)) qs'" by simp_all
  from Cons.prems(3) q have e1: "type_suffix p = type_suffix q"
    and e2: "map type_suffix ps = map type_suffix qs'" by simp_all
  from type_suffix_inj [OF rp rq e1] Cons.IH [OF rps rqs e2] q show ?case by simp
qed

lemma name_pieces_cases:
  assumes "good_name k"
  shows "(name_pieces k = [k] \<and> CHR ''_'' \<notin> set k \<and> k \<noteq> ''unit'') \<or>
         (name_pieces k = [''unit'', drop 5 k] \<and> k = ''unit_'' @ drop 5 k \<and>
          decode_suffix (drop 5 k) = None)"
proof (cases "CHR ''_'' \<notin> set k")
  case True
  with assms show ?thesis
    by (auto simp: name_pieces_def good_name_def dest: in_set_takeD)
next
  case False
  with assms have u: "take 5 k = ''unit_''" "decode_suffix (drop 5 k) = None"
    by (auto simp: good_name_def)
  have "k = take 5 k @ drop 5 k" by simp
  with u(1) have "k = ''unit_'' @ drop 5 k" by simp
  with False u(2) show ?thesis by (simp add: name_pieces_def)
qed

lemma row_ident_inj:
  assumes g: "good_name (fst (snd r))" "good_name (fst (snd s))"
    and wf: "wf_row r" "wf_row s"
    and eq: "row_ident r = row_ident s"
  shows "row_key r = row_key s"
proof -
  let ?k = "fst (snd r)" and ?l = "fst (snd s)"
  let ?ps = "row_types r" and ?qs = "row_types s"
  note regp = wf_row_types [OF wf(1)] and regq = wf_row_types [OF wf(2)]
  from eq row_pieces_split [OF g(1) wf(1)] row_pieces_split [OF g(2) wf(2)]
  have pieces: "name_pieces ?k @ map type_suffix ?ps = name_pieces ?l @ map type_suffix ?qs"
    by (simp add: row_pieces_def)
  have dec: "\<And>p. p \<in> set ?ps \<Longrightarrow> decode_suffix (type_suffix p) \<noteq> None"
    "\<And>q. q \<in> set ?qs \<Longrightarrow> decode_suffix (type_suffix q) \<noteq> None"
    using regp regq decode_type_suffix by (auto simp: list_all_iff)
  have "name_pieces ?k = name_pieces ?l \<and> map type_suffix ?ps = map type_suffix ?qs"
    using name_pieces_cases [OF g(1)] name_pieces_cases [OF g(2)]
  proof (elim disjE conjE)
    assume "name_pieces ?k = [?k]" "name_pieces ?l = [?l]"
    with pieces show ?thesis by simp
  next
    assume a: "name_pieces ?k = [?k]" "?k \<noteq> ''unit''" "name_pieces ?l = [''unit'', drop 5 ?l]"
    with pieces show ?thesis by simp
  next
    assume a: "name_pieces ?k = [''unit'', drop 5 ?k]" "name_pieces ?l = [?l]" "?l \<noteq> ''unit''"
    with pieces show ?thesis by simp
  next
    assume "name_pieces ?k = [''unit'', drop 5 ?k]" "name_pieces ?l = [''unit'', drop 5 ?l]"
    with pieces show ?thesis by simp
  qed
  then have np: "name_pieces ?k = name_pieces ?l" and ts: "map type_suffix ?ps = map type_suffix ?qs"
    by simp_all
  from np good_name_join [OF g(1)] good_name_join [OF g(2)] have "?k = ?l" by metis
  moreover from map_type_suffix_inj [OF regp regq ts] have "?ps = ?qs" .
  ultimately show ?thesis by (simp add: row_key_def)
qed

section \<open>Blocks of keys\<close>

lemma set_key_block: "set (key_block ks tls) = set ks \<times> set tls"
  by (auto simp: key_block_def)

lemma distinct_key_block:
  "distinct ks \<Longrightarrow> distinct tls \<Longrightarrow> distinct (key_block ks tls)"
proof (induction ks)
  case Nil
  then show ?case by (simp add: key_block_def)
next
  case (Cons k ks)
  have "key_block (k # ks) tls = map (Pair k) tls @ key_block ks tls"
    by (simp add: key_block_def)
  moreover have "distinct (map (Pair k) tls)"
    using Cons.prems(2) by (simp add: distinct_map inj_on_def)
  moreover have "set (map (Pair k) tls) \<inter> set (key_block ks tls) = {}"
    using Cons.prems(1) by (auto simp: set_key_block)
  ultimately show ?case using Cons by simp
qed

lemma disjoint_lists_iff: "disjoint_lists xs ys \<longleftrightarrow> set xs \<inter> set ys = {}"
  by (auto simp: disjoint_lists_def list_all_iff)

lemma blocks_ok_distinct:
  "blocks_ok bs \<Longrightarrow> distinct (concat (map (\<lambda>(ks, tls). key_block ks tls) bs))"
proof (induction bs)
  case Nil
  then show ?case by simp
next
  case (Cons b bs)
  obtain ks tls where b: "b = (ks, tls)" by (cases b)
  from Cons.prems b have ok: "distinct ks" "distinct tls" "blocks_ok bs"
    and dis: "\<forall>(ks', tls')\<in>set bs. set ks \<inter> set ks' = {} \<or> set tls \<inter> set tls' = {}"
    by (auto simp: list_all_iff disjoint_lists_iff split: if_splits)
  have "set (key_block ks tls) \<inter> set (concat (map (\<lambda>(ks, tls). key_block ks tls) bs)) = {}"
    using dis by (fastforce simp: set_key_block)
  with distinct_key_block [OF ok(1,2)] Cons.IH [OF ok(3)] b show ?case by simp
qed

lemma row_key_row: "k \<noteq> ''cast'' \<Longrightarrow> row_key (a_row v k sh n) = (k, fst sh)"
  by (cases "snd sh") (simp_all add: row_key_def a_row_def)

lemma key_family:
  assumes "\<forall>kv\<in>set ops. fst kv \<noteq> ''cast''"
  shows "map row_key (concat (map (\<lambda>kv. map (\<lambda>s. a_row (e kv) (fst kv) s (n kv)) ss) ops))
         = key_block (map fst ops) (map fst ss)"
  using assms
proof (induction ops)
  case Nil
  then show ?case by (simp add: key_block_def)
next
  case (Cons kv ops)
  then show ?case by (simp add: key_block_def row_key_row o_def)
qed

section \<open>The keys of the table, family by family\<close>

lemma keys_binary:
  assumes "\<forall>kv\<in>set ops. fst kv \<noteq> ''cast''"
  shows "map row_key (a_same_type_binary ops ts) = key_block (map fst ops) (binary_params ts)"
proof -
  have "a_same_type_binary ops ts =
        concat (map (\<lambda>kv. map (\<lambda>s. a_row (snd kv) (fst kv) s 3)
                  [sh t t t. sh \<leftarrow> binary_shapes, t \<leftarrow> ts]) ops)"
    by (simp add: a_same_type_binary_def map_concat o_def split_def)
  then show ?thesis
    using key_family [OF assms, of snd "\<lambda>_. 3"] by (simp add: binary_params_def)
qed

lemma keys_unary:
  assumes "\<forall>kv\<in>set ops. fst kv \<noteq> ''cast''"
  shows "map row_key (a_same_type_unary ops ts) = key_block (map fst ops) (unary_params ts)"
proof -
  have "a_same_type_unary ops ts =
        concat (map (\<lambda>kv. map (\<lambda>s. a_row (snd kv) (fst kv) s 2)
                  [sh t t. sh \<leftarrow> unary_shapes, t \<leftarrow> ts]) ops)"
    by (simp add: a_same_type_unary_def map_concat o_def split_def)
  then show ?thesis
    using key_family [OF assms, of snd "\<lambda>_. 2"] by (simp add: unary_params_def)
qed

lemma keys_reduce:
  assumes "\<forall>kv\<in>set ops. fst kv \<noteq> ''cast''"
  shows "map row_key (a_reduce ops ts) = key_block (map fst ops) (map (\<lambda>t. [Array t]) ts)"
proof -
  have eq: "a_reduce ops ts =
        concat (map (\<lambda>kv. map (\<lambda>s. a_row (snd kv) (fst kv) s 2)
                  (map (\<lambda>t. ([Array t], Ret (Scalar t))) ts)) ops)"
    by (simp add: a_reduce_def map_concat o_def split_def)
  show ?thesis
    unfolding eq key_family [OF assms, of snd "\<lambda>_. 2"] by (simp add: o_def)
qed

lemma keys_literal:
  "map row_key a_literal = key_block (map vvm_name literal_opcodes) [[]]"
proof -
  have "map row_key a_literal = map (\<lambda>o'. (vvm_name o', [])) literal_opcodes"
    unfolding a_literal_def map_map
    by (rule map_cong [OF refl]) (simp add: row_key_row literal_not_cast)
  then show ?thesis by (simp add: key_block_def o_def)
qed

lemma keys_cast: "map row_key a_cast = key_block [''cast''] cast_types"
  by (simp add: a_cast_def cast_types_def key_block_def map_concat o_def split_def row_key_def
      a_row_def)

lemma keys_print: "map row_key a_print = key_block [''print''] (unary_params all_types)"
  by (simp add: a_print_def unary_params_def unary_shapes_def key_block_def row_key_row)

lemma keys_two:
  assumes "\<forall>kv\<in>set ops. fst kv \<noteq> ''cast''"
  shows "map row_key [a_row v k (sh t1 t2 (f t1 t2)) 3.
            (k, v) \<leftarrow> ops, sh \<leftarrow> binary_shapes, t1 \<leftarrow> ts1, t2 \<leftarrow> ts2]
         = key_block (map fst ops) (binary_params_two ts1 ts2)"
proof -
  have eq: "[a_row v k (sh t1 t2 (f t1 t2)) 3.
            (k, v) \<leftarrow> ops, sh \<leftarrow> binary_shapes, t1 \<leftarrow> ts1, t2 \<leftarrow> ts2] =
        concat (map (\<lambda>kv. map (\<lambda>s. a_row (snd kv) (fst kv) s 3)
                  [sh t1 t2 (f t1 t2). sh \<leftarrow> binary_shapes, t1 \<leftarrow> ts1, t2 \<leftarrow> ts2]) ops)"
    by (simp add: map_concat o_def split_def)
  show ?thesis
    unfolding eq key_family [OF assms, of snd "\<lambda>_. 3"]
    by (simp add: binary_params_two_def binary_shapes_def map_concat o_def)
qed

lemma keys_one:
  assumes "\<forall>kv\<in>set ops. fst kv \<noteq> ''cast''"
  shows "map row_key [a_row v k (sh t t c) 3.
            (k, v) \<leftarrow> ops, sh \<leftarrow> binary_shapes, t \<leftarrow> ts]
         = key_block (map fst ops) (binary_params ts)"
proof -
  have eq: "[a_row v k (sh t t c) 3. (k, v) \<leftarrow> ops, sh \<leftarrow> binary_shapes, t \<leftarrow> ts] =
        concat (map (\<lambda>kv. map (\<lambda>s. a_row (snd kv) (fst kv) s 3)
                  [sh t t c. sh \<leftarrow> binary_shapes, t \<leftarrow> ts]) ops)"
    by (simp add: map_concat o_def split_def)
  show ?thesis
    unfolding eq key_family [OF assms, of snd "\<lambda>_. 3"]
    by (simp add: binary_params_def binary_shapes_def map_concat o_def)
qed

lemma keys_comparison:
  "map row_key a_comparison =
     key_block [''lt'', ''gt'', ''eq'', ''ne'', ''lte'', ''gte''] (binary_params all_types)"
  unfolding a_comparison_def by (subst keys_one, simp, simp)

lemma keys_time:
  "map row_key a_time_arith =
     key_block [''sub''] (binary_params time_ish_types) @
     key_block [''add'', ''sub'', ''mul'', ''div'', ''bar'']
       (binary_params_two (time_ish_types @ timedelta_types) timedelta_types) @
     key_block [''add'', ''mul''] (binary_params_two timedelta_types time_ish_types) @
     key_block [''add''] (binary_params_two date_types time_types)"
proof -
  define B1 where "B1 = [a_row v k (sh t t ''Timedelta'') 3.
       (k, v) \<leftarrow> [(''sub'', ''-'')], sh \<leftarrow> binary_shapes, t \<leftarrow> time_ish_types]"
  define B2 where "B2 = [a_row v k (sh t1 t2 t1) 3.
       (k, v) \<leftarrow> [(''add'', ''+''), (''sub'', ''-''), (''mul'', ''*''), (''div'', ''/''),
                  (''bar'', ''bar'')],
       sh \<leftarrow> binary_shapes,
       t1 \<leftarrow> time_ish_types @ timedelta_types, t2 \<leftarrow> timedelta_types]"
  define B3 where "B3 = [a_row v k (sh t1 t2 t2) 3.
       (k, v) \<leftarrow> [(''add'', ''+''), (''mul'', ''*'')],
       sh \<leftarrow> binary_shapes,
       t1 \<leftarrow> timedelta_types, t2 \<leftarrow> time_ish_types]"
  define B4 where "B4 = [a_row v k (sh t1 t2 ''Timestamp'') 3.
       (k, v) \<leftarrow> [(''add'', ''+'')], sh \<leftarrow> binary_shapes,
       t1 \<leftarrow> date_types, t2 \<leftarrow> time_types]"
  have split: "a_time_arith = B1 @ B2 @ B3 @ B4"
    unfolding a_time_arith_def B1_def B2_def B3_def B4_def by (rule refl)
  have b1: "map row_key B1 = key_block (map fst [(''sub'', ''-'')]) (binary_params time_ish_types)"
    unfolding B1_def by (rule keys_one) simp
  have b2: "map row_key B2
     = key_block (map fst [(''add'', ''+''), (''sub'', ''-''), (''mul'', ''*''), (''div'', ''/''),
                  (''bar'', ''bar'')])
         (binary_params_two (time_ish_types @ timedelta_types) timedelta_types)"
    unfolding B2_def by (rule keys_two) simp
  have b3: "map row_key B3
     = key_block (map fst [(''add'', ''+''), (''mul'', ''*'')])
         (binary_params_two timedelta_types time_ish_types)"
    unfolding B3_def by (rule keys_two) simp
  have b4: "map row_key B4
     = key_block (map fst [(''add'', ''+'')]) (binary_params_two date_types time_types)"
    unfolding B4_def by (rule keys_two) simp
  show ?thesis
    unfolding split by (simp add: b1 b2 b3 b4)
qed

lemma keys_unit:
  "map row_key a_unit =
     key_block (map (\<lambda>u. ''unit_'' @ u) [''ns'', ''us'', ''ms'', ''s'', ''m'', ''h'', ''d''])
       [[Scalar ''Int64'']]"
  by (simp add: a_unit_def key_block_def row_key_row)

lemma keys_wrapper:
  "map row_key a_wrapper =
     key_block [''len'', ''count''] (map (\<lambda>t. [Array t]) all_types) @
     key_block [''range''] (map (\<lambda>t. [Scalar t]) integer_types)"
  by (simp add: a_wrapper_def key_block_def row_key_row o_def)

lemma keys_manual:
  "map row_key a_manual =
     key_block [''del''] (unary_params all_types) @
     key_block [''idx''] (map (\<lambda>t. [Array t, Scalar ''Int64'']) all_types)"
  by (simp add: a_manual_def key_block_def row_key_row unary_params_def unary_shapes_def o_def)

lemma keys_table:
  "map row_key a_opcodes = concat (map (\<lambda>(ks, tls). key_block ks tls) key_blocks)"
proof -
  note fam = keys_binary [of "[(''or'', ''or''), (''and'', ''and'')]" bool_types]
    keys_binary [of "[(''bitand'', ''&''), (''bitor'', ''|''), (''lshift'', ''<<''),
                       (''rshift'', ''>>''), (''mod'', ''%'')]" integer_types]
    keys_binary [of "[(''add'', ''+''), (''sub'', ''-''), (''mul'', ''*''), (''div'', ''/'')]"
                      arithmetic_types]
    keys_binary [of "[(''add'', ''+'')]" string_types]
    keys_unary [of "[(''not'', ''not'')]" bool_types]
    keys_unary [of "[(''neg'', ''-''), (''pos'', ''+'')]" arithmetic_types]
    keys_unary [of "[(''sin'', ''sin''), (''cos'', ''cos''), (''tan'', ''tan''),
                      (''asin'', ''asin''), (''acos'', ''acos''), (''atan'', ''atan''),
                      (''sinh'', ''sinh''), (''cosh'', ''cosh''), (''tanh'', ''tanh''),
                      (''asinh'', ''asinh''), (''acosh'', ''acosh''), (''atanh'', ''atanh'')]"
                     float_types]
    keys_reduce [of "[(''sum'', ''sum''), (''prod'', ''prod'')]" arithmetic_types]
    keys_reduce [of "[(''sum'', ''sum'')]" string_types]
  have now: "map row_key [a_row ''now'' ''now'' ([Scalar ''Timestamp''], NoRet) 1] =
             key_block [''now''] [[Scalar ''Timestamp'']]"
    by (simp add: key_block_def row_key_row)
  show ?thesis
    unfolding a_opcodes_def key_blocks_def map_append keys_literal keys_cast keys_print
      keys_comparison keys_time keys_unit keys_wrapper keys_manual now
    by (simp add: fam)
qed

section \<open>Pairwise distinct identifiers\<close>

lemma key_blocks_ok: "blocks_ok key_blocks"
  by (simp add: key_blocks_def binary_params_def binary_params_two_def unary_params_def
      cast_types_def binary_shapes_def unary_shapes_def cast_pairs_def type_lists
      literal_opcodes_def vvm_name_def a_row_def disjoint_lists_def)

lemma row_keys_distinct: "distinct (map row_key a_opcodes)"
  unfolding keys_table by (rule blocks_ok_distinct [OF key_blocks_ok])

lemma good_literal_names: "list_all (\<lambda>o'. good_name (vvm_name o')) literal_opcodes"
  by (simp add: literal_opcodes_def vvm_name_def good_name_def)

lemma good_operator_names: "list_all (\<lambda>(k, v). good_name k) operator_names"
  by (simp add: operator_names_def good_name_def decode_suffix_def tag_types_def types_def)

lemma good_table_names: "(k, v) \<in> set name_table \<Longrightarrow> good_name k"
  using good_literal_names good_operator_names
  by (auto simp: name_table_def list_all_iff good_name_def)

lemma good_row_names: "r \<in> set a_opcodes \<Longrightarrow> good_name (fst (snd r))"
  using a_opcode_names [of r] good_table_names [of "fst (snd r)" "fst r"]
  by (simp add: arow_names_def)

lemma distinct_map_via:
  assumes "distinct (map g xs)" and "\<And>x y. x \<in> set xs \<Longrightarrow> y \<in> set xs \<Longrightarrow> f x = f y \<Longrightarrow> g x = g y"
  shows "distinct (map f xs)"
proof -
  from assms(1) have d: "distinct xs" and i: "inj_on g (set xs)"
    by (simp_all add: distinct_map)
  have "inj_on f (set xs)"
  proof (rule inj_onI)
    fix x y assume "x \<in> set xs" "y \<in> set xs" "f x = f y"
    with assms(2) i show "x = y" by (auto dest: inj_onD)
  qed
  with d show ?thesis by (simp add: distinct_map)
qed

lemma row_idents_distinct: "distinct (map row_ident a_opcodes)"
proof (rule distinct_map_via [OF row_keys_distinct])
  fix r s assume "r \<in> set a_opcodes" "s \<in> set a_opcodes" "row_ident r = row_ident s"
  with wf_a_opcodes good_row_names show "row_key r = row_key s"
    by (intro row_ident_inj) auto
qed

lemma opcode_idents_ok:
  "map (\<lambda>o'. get_opcode (vvm_name o') (type_sig o')) opcodes = map Inr opcode_idents \<and>
   distinct opcode_idents"
proof -
  have "opcode_id = (\<lambda>o'. get_opcode (vvm_name o') (type_sig o'))"
    by (rule ext) (simp add: opcode_id_def)
  with opcode_ids row_idents_distinct show ?thesis
    by (simp add: opcode_idents_def)
qed

text \<open>
  C2. get_opcode gives every row of the table an identifier, and the identifiers of
  rows at different positions of the table are different.
\<close>

theorem get_opcode_injective:
  "(\<exists>ids. map (\<lambda>o'. get_opcode (vvm_name o') (type_sig o')) opcodes = map Inr ids \<and>
          distinct ids) \<and>
   distinct (map (\<lambda>o'. get_opcode (vvm_name o') (type_sig o')) opcodes) \<and>
   length opcodes = 619"
proof (intro conjI)
  show "\<exists>ids. map (\<lambda>o'. get_opcode (vvm_name o') (type_sig o')) opcodes = map Inr ids \<and>
          distinct ids"
    using opcode_idents_ok by blast
  show "distinct (map (\<lambda>o'. get_opcode (vvm_name o') (type_sig o')) opcodes)"
    using opcode_idents_ok by (simp add: distinct_map)
  show "length opcodes = 619" by code_simp
qed

end
